theory Spec2Isabelle
  imports Main
begin

section \<open>The uploader of upload\_s3\_files\_to\_bucket.py\<close>

subsection \<open>Timestamps\<close>

text \<open>
  \<^verbatim>\<open>datetime.datetime.now()\<close> gives a value with the fields below. Python keeps
  month, day, hour, minute, second and microsecond within their ranges; the year of a
  clock reading has four digits.
\<close>

record datetime =
  year :: nat
  month :: nat
  day :: nat
  hour :: nat
  minute :: nat
  second :: nat
  microsecond :: nat

definition valid_datetime :: "datetime \<Rightarrow> bool" where
  "valid_datetime d \<longleftrightarrow>
     1000 \<le> year d \<and> year d \<le> 9999 \<and> 1 \<le> month d \<and> month d \<le> 12 \<and>
     1 \<le> day d \<and> day d \<le> 31 \<and> hour d < 24 \<and> minute d < 60 \<and> second d < 60 \<and>
     microsecond d < 1000000"

definition digit_char :: "nat \<Rightarrow> char" where
  "digit_char n = char_of (48 + n mod 10)"

text \<open>The decimal numeral of a number, as \<^verbatim>\<open>str(n)\<close> gives it.\<close>

function decimal :: "nat \<Rightarrow> string" where
  "decimal n = (if n < 10 then [digit_char n] else decimal (n div 10) @ [digit_char n])"
  by pat_completeness auto
termination
  by (relation "measure (\<lambda>n. n)") auto

declare decimal.simps [simp del]

text \<open>
  A numeric directive of width \<open>w\<close> (\<^verbatim>\<open>%m %d %H %M %S\<close> with 2, \<^verbatim>\<open>%f\<close> with 6, and
  \<^verbatim>\<open>%Y\<close>, which prints four digits for the years a clock gives) pads the numeral
  with zeros on the left up to \<open>w\<close> characters.
\<close>

definition zero_padded :: "nat \<Rightarrow> nat \<Rightarrow> string" where
  "zero_padded w n = replicate (w - length (decimal n)) CHR ''0'' @ decimal n"

text \<open>\<^verbatim>\<open>strftime("%Y-%m-%d %H:%M:%S,%f")\<close>\<close>

definition strftime :: "datetime \<Rightarrow> string" where
  "strftime d =
     zero_padded 4 (year d) @ ''-'' @ zero_padded 2 (month d) @ ''-'' @ zero_padded 2 (day d)
     @ '' '' @ zero_padded 2 (hour d) @ '':'' @ zero_padded 2 (minute d) @ '':''
     @ zero_padded 2 (second d) @ '','' @ zero_padded 6 (microsecond d)"

text \<open>The slice \<^verbatim>\<open>s[:-3]\<close>.\<close>

definition drop_last3 :: "string \<Rightarrow> string" where
  "drop_last3 s = take (length s - 3) s"

definition asctime_of :: "datetime \<Rightarrow> string" where
  "asctime_of d = drop_last3 (strftime d)"

subsection \<open>Log records and the calling thread's state\<close>

text \<open>The dictionary built by \<^verbatim>\<open>log_async\<close>, with its three keys.\<close>

record log_record =
  asctime :: string
  levelname :: string
  message :: string

text \<open>What one upload attempt does: the \<^verbatim>\<open>try\<close> body returns or raises.\<close>

datatype upload_outcome =
  Success
| NotFound
| CredentialsMissing
| OtherFailure string

text \<open>
  The environment of a run: the result of opening \<open>full_path\<close> and streaming it to the
  bucket under the key, the successive readings of the clock, and for a line given to
  \<^verbatim>\<open>print\<close> the text of the exception it raises, if it raises one (a name that
  standard output cannot encode, a closed pipe).
\<close>

record env =
  attempt :: "string \<Rightarrow> string \<Rightarrow> string \<Rightarrow> upload_outcome"
  now :: "nat \<Rightarrow> datetime"
  print_raises :: "string \<Rightarrow> string option"

text \<open>
  The effects of the calling thread, oldest first: the items it has put on
  \<^verbatim>\<open>log_queue\<close> (\<open>None\<close> is the terminating signal), the lines printed, the lines
  the console handler of \<^verbatim>\<open>logger\<close> has emitted, the upload attempts made
  (path, bucket, key), and the number of clock readings so far.
\<close>

record world =
  log_queue :: "log_record option list"
  stdout :: "string list"
  console :: "string list"
  uploads :: "(string \<times> string \<times> string) list"
  ticks :: nat

definition log_async :: "env \<Rightarrow> string \<Rightarrow> string \<Rightarrow> world \<Rightarrow> world" where
  "log_async e level msg w =
     (let log_entry = \<lparr>asctime = asctime_of (now e (ticks w)), levelname = level,
                       message = msg\<rparr>
      in w\<lparr>log_queue := log_queue w @ [Some log_entry], ticks := Suc (ticks w)\<rparr>)"

text \<open>
  \<^verbatim>\<open>logger.error(msg)\<close>: the logger has the console handler only, with the formatter
  \<^verbatim>\<open>"%(asctime)s - %(levelname)s - %(message)s"\<close>; nothing is put on the queue.
\<close>

definition logger_error :: "env \<Rightarrow> string \<Rightarrow> world \<Rightarrow> world" where
  "logger_error e msg w =
     w\<lparr>console := console w @ [asctime_of (now e (ticks w)) @ '' - ERROR - '' @ msg],
       ticks := Suc (ticks w)\<rparr>"

text \<open>\<^verbatim>\<open>print(line)\<close>: the line is written, or the call raises and writes nothing.\<close>

definition print :: "env \<Rightarrow> string \<Rightarrow> world \<Rightarrow> string + world" where
  "print e line w =
     (case print_raises e line of
        None \<Rightarrow> Inr (w\<lparr>stdout := stdout w @ [line]\<rparr>)
      | Some err \<Rightarrow> Inl err)"

subsection \<open>Walking the directory tree\<close>

text \<open>\<^verbatim>\<open>os.path.join(a, b)\<close> of posixpath, for two components.\<close>

definition path_join :: "string \<Rightarrow> string \<Rightarrow> string" where
  "path_join a b =
     (if b \<noteq> [] \<and> hd b = CHR ''/'' then b
      else if a = [] \<or> last a = CHR ''/'' then a @ b
      else a @ ''/'' @ b)"

text \<open>A directory: the names of its files and its named subdirectories, in listing order.\<close>

datatype dir = Dir "string list" "(string \<times> dir) list"

text \<open>
  \<^verbatim>\<open>os.walk(top)\<close>, top-down: the triple of the directory itself, then the walk of
  each subdirectory in turn. A root that does not exist yields nothing.
\<close>

fun walk_dir :: "string \<Rightarrow> dir \<Rightarrow> (string \<times> string list \<times> string list) list"
  and walk_subdirs :: "string \<Rightarrow> (string \<times> dir) list \<Rightarrow> (string \<times> string list \<times> string list) list"
where
  "walk_dir path (Dir files ds) = (path, map fst ds, files) # walk_subdirs path ds"
| "walk_subdirs path [] = []"
| "walk_subdirs path ((name, d) # ds) =
     walk_dir (path_join path name) d @ walk_subdirs path ds"

fun os_walk :: "string \<Rightarrow> dir option \<Rightarrow> (string \<times> string list \<times> string list) list" where
  "os_walk path None = []"
| "os_walk path (Some d) = walk_dir path d"

subsection \<open>The upload loops\<close>

text \<open>
  The body of the inner loop for one file. The result says whether the loop goes on
  (\<open>False\<close> after \<^verbatim>\<open>break\<close>). \<^verbatim>\<open>print\<close> stands inside the \<^verbatim>\<open>try\<close>: when it
  raises after a successful upload, the record is already queued and the handler of
  any other exception reports the failure through the logger.
\<close>

definition upload_one :: "env \<Rightarrow> string \<Rightarrow> string \<Rightarrow> string \<Rightarrow> world \<Rightarrow> world \<times> bool" where
  "upload_one e bucket_name subdir file w =
     (let full_path = path_join subdir file;
          w1 = w\<lparr>uploads := uploads w @ [(full_path, bucket_name, file)]\<rparr>
      in case attempt e full_path bucket_name file of
           Success \<Rightarrow>
             (let w2 = log_async e ''INFO'' (''File '' @ file @ '' uploaded to '' @ bucket_name) w1
              in case print e (''File '' @ file @ '' uploaded to '' @ bucket_name) w2 of
                   Inr w3 \<Rightarrow> (w3, True)
                 | Inl err \<Rightarrow>
                     (logger_error e (''Error uploading file '' @ file @ '': '' @ err) w2, True))
         | NotFound \<Rightarrow>
             (log_async e ''ERROR'' (''The file '' @ file @ '' was not found'') w1, True)
         | CredentialsMissing \<Rightarrow>
             (log_async e ''ERROR'' ''Credentials not available'' w1, False)
         | OtherFailure err \<Rightarrow>
             (logger_error e (''Error uploading file '' @ file @ '': '' @ err) w1, True))"

text \<open>\<^verbatim>\<open>for file in files\<close>: \<^verbatim>\<open>break\<close> leaves this loop.\<close>

fun upload_files :: "env \<Rightarrow> string \<Rightarrow> string \<Rightarrow> string list \<Rightarrow> world \<Rightarrow> world" where
  "upload_files e bucket_name subdir [] w = w"
| "upload_files e bucket_name subdir (file # files) w =
     (case upload_one e bucket_name subdir file w of
        (w', True) \<Rightarrow> upload_files e bucket_name subdir files w'
      | (w', False) \<Rightarrow> w')"

text \<open>\<^verbatim>\<open>for subdir, dirs, files in os.walk(local_directory)\<close>\<close>

fun upload_walk :: "env \<Rightarrow> string \<Rightarrow> (string \<times> string list \<times> string list) list \<Rightarrow> world \<Rightarrow> world" where
  "upload_walk e bucket_name [] w = w"
| "upload_walk e bucket_name ((subdir, dirs, files) # rest) w =
     upload_walk e bucket_name rest (upload_files e bucket_name subdir files w)"

text \<open>
  The function takes the tree found at \<open>local_directory\<close> (\<open>None\<close> when the path does
  not exist) and ends by putting \<open>None\<close> on the queue.
\<close>

definition upload_directory_to_s3 :: "env \<Rightarrow> string \<Rightarrow> dir option \<Rightarrow> string \<Rightarrow> world \<Rightarrow> world" where
  "upload_directory_to_s3 e local_directory root bucket_name w =
     (let w' = upload_walk e bucket_name (os_walk local_directory root) w
      in w'\<lparr>log_queue := log_queue w' @ [None]\<rparr>)"

subsection \<open>The log handler thread\<close>

text \<open>
  The two log files, each with what it holds and whether opening it for appending and
  writing to it succeeds.
\<close>

datatype log_file = INFO_LOG_FILE | ERROR_LOG_FILE

record disk =
  content :: "log_file \<Rightarrow> string"
  writable :: "log_file \<Rightarrow> bool"

datatype error = OSError

definition format :: "log_record \<Rightarrow> string" where
  "format record = asctime record @ '' - '' @ levelname record @ '' - '' @ message record"

definition newline :: string where
  "newline = [CHR 0x0A]"

text \<open>
  \<^verbatim>\<open>write_log\<close>: the file is chosen by the level and opened in mode \<^verbatim>\<open>"a"\<close>, which
  keeps what it holds and writes at its end.
\<close>

definition write_log :: "log_record \<Rightarrow> disk \<Rightarrow> error + disk" where
  "write_log record d =
     (let log_file = (if levelname record = ''ERROR'' then ERROR_LOG_FILE else INFO_LOG_FILE)
      in if writable d log_file
         then Inr (d\<lparr>content := (content d)(log_file := content d log_file @ format record @ newline)\<rparr>)
         else Inl OSError)"

text \<open>
  The handler thread runs, has left its loop at the \<open>None\<close> signal, or has died of an
  exception that \<^verbatim>\<open>run\<close> does not catch.
\<close>

datatype thread_state = Running | Finished | Died

text \<open>The queue shared by the two threads, the handler thread and the log files.\<close>

record system =
  queue :: "log_record option list"
  handler :: thread_state
  log_files :: disk

text \<open>
  Module initialisation: \<^verbatim>\<open>log_queue = queue.Queue()\<close> and
  \<^verbatim>\<open>async_handler = AsyncLogHandler(...)\<close>, whose constructor starts the thread.
\<close>

definition module_init :: "disk \<Rightarrow> system" where
  "module_init d = \<lparr>queue = [], handler = Running, log_files = d\<rparr>"

text \<open>
  One iteration of the loop of \<^verbatim>\<open>run\<close>. \<^verbatim>\<open>get\<close> on an empty queue blocks: nothing
  changes. A thread that has ended does nothing more.
\<close>

definition run_iteration :: "system \<Rightarrow> system" where
  "run_iteration s =
     (if handler s \<noteq> Running then s
      else case queue s of
             [] \<Rightarrow> s
           | None # q \<Rightarrow> s\<lparr>queue := q, handler := Finished\<rparr>
           | Some record # q \<Rightarrow>
               (case write_log record (log_files s) of
                  Inr d \<Rightarrow> s\<lparr>queue := q, log_files := d\<rparr>
                | Inl err \<Rightarrow> s\<lparr>queue := q, handler := Died\<rparr>))"

text \<open>
  The two threads interleave at the queue operations. A schedule lists, in the order
  they happen, the \<^verbatim>\<open>put\<close>s of the calling thread and the iterations of the handler.
\<close>

datatype event = Put "log_record option" | Handler

fun step :: "event \<Rightarrow> system \<Rightarrow> system" where
  "step (Put x) s = s\<lparr>queue := queue s @ [x]\<rparr>"
| "step Handler s = run_iteration s"

definition execute :: "event list \<Rightarrow> system \<Rightarrow> system" where
  "execute schedule s = fold step schedule s"

text \<open>The items put by a schedule, in order.\<close>

fun submitted :: "event list \<Rightarrow> log_record option list" where
  "submitted [] = []"
| "submitted (Put x # es) = x # submitted es"
| "submitted (Handler # es) = submitted es"

text \<open>
  What the handler has done once it has taken the given items off the queue, one per
  iteration, starting in the given thread state.
\<close>

fun consume :: "log_record option list \<Rightarrow> thread_state \<times> disk \<Rightarrow> thread_state \<times> disk" where
  "consume [] td = td"
| "consume (x # xs) (t, d) =
     (if t \<noteq> Running then (t, d)
      else case x of
             None \<Rightarrow> consume xs (Finished, d)
           | Some record \<Rightarrow>
               (case write_log record d of
                  Inr d' \<Rightarrow> consume xs (Running, d')
                | Inl err \<Rightarrow> consume xs (Died, d)))"

text \<open>The lines of the records that go to one file.\<close>

definition lines_for :: "log_file \<Rightarrow> log_record list \<Rightarrow> string" where
  "lines_for f rs =
     concat (map (\<lambda>r. format r @ newline)
       (filter (\<lambda>r. (levelname r = ''ERROR'') = (f = ERROR_LOG_FILE)) rs))"

subsection \<open>Reading a log line back\<close>

text \<open>
  \<^verbatim>\<open>s.split(sep)\<close> for a separator that is not empty: the text is cut at each
  occurrence of the separator, found from left to right.
\<close>

function split_from :: "string \<Rightarrow> string \<Rightarrow> string \<Rightarrow> string list" where
  "split_from sep cur s =
     (if s = [] then [cur]
      else if sep \<noteq> [] \<and> take (length sep) s = sep
           then cur # split_from sep [] (drop (length sep) s)
           else split_from sep (cur @ [hd s]) (tl s))"
  by pat_completeness auto
termination
  by (relation "measure (\<lambda>(sep, cur, s). length s)") auto

declare split_from.simps [simp del]

definition str_split :: "string \<Rightarrow> string \<Rightarrow> string list" where
  "str_split sep s = split_from sep [] s"

fun str_join :: "string \<Rightarrow> string list \<Rightarrow> string" where
  "str_join sep [] = []"
| "str_join sep [x] = x"
| "str_join sep (x # y # ys) = x @ sep @ str_join sep (y # ys)"

subsection \<open>Vocabulary of the properties\<close>

text \<open>
  The files a walk enumerates, each with its directory, in the order of the two loops.
\<close>

definition enumerated :: "string \<Rightarrow> dir option \<Rightarrow> (string \<times> string) list" where
  "enumerated path root =
     concat (map (\<lambda>(subdir, dirs, files). map (\<lambda>file. (subdir, file)) files) (os_walk path root))"

text \<open>The upload attempted for an enumerated file, and what the environment answers.\<close>

definition task_of :: "string \<Rightarrow> string \<times> string \<Rightarrow> string \<times> string \<times> string" where
  "task_of bucket_name t = (path_join (fst t) (snd t), bucket_name, snd t)"

definition outcome_of :: "env \<Rightarrow> string \<times> string \<times> string \<Rightarrow> upload_outcome" where
  "outcome_of e t = attempt e (fst t) (fst (snd t)) (snd (snd t))"

text \<open>
  The level of the record that \<^verbatim>\<open>log_async\<close> queues for an outcome; the handler of
  any other exception calls \<^verbatim>\<open>logger.error\<close> and queues none.
\<close>

fun queued_level :: "upload_outcome \<Rightarrow> string option" where
  "queued_level Success = Some ''INFO''"
| "queued_level NotFound = Some ''ERROR''"
| "queued_level CredentialsMissing = Some ''ERROR''"
| "queued_level (OtherFailure err) = None"

fun queued_levels :: "upload_outcome list \<Rightarrow> string list" where
  "queued_levels [] = []"
| "queued_levels (x # xs) =
     (case queued_level x of None \<Rightarrow> queued_levels xs | Some l \<Rightarrow> l # queued_levels xs)"

text \<open>Concrete inputs for the examples.\<close>

definition example_clock :: "nat \<Rightarrow> datetime" where
  "example_clock n = \<lparr>year = 2024, month = 3, day = 9, hour = 14, minute = 5, second = 7,
                       microsecond = 123456\<rparr>"

definition fresh_world :: world where
  "fresh_world = \<lparr>log_queue = [], stdout = [], console = [], uploads = [], ticks = 0\<rparr>"

text \<open>The last \<open>w\<close> decimal digits of a number.\<close>

fun last_digits :: "nat \<Rightarrow> nat \<Rightarrow> string" where
  "last_digits 0 n = []"
| "last_digits (Suc w) n = last_digits w (n div 10) @ [digit_char n]"

text \<open>
  The time stamp of a log line as the specification words it: date, time and
  milliseconds, \<^verbatim>\<open>YYYY-MM-DD HH:MM:SS,mmm\<close>.
\<close>

definition millisecond_stamp :: "datetime \<Rightarrow> string" where
  "millisecond_stamp d =
     last_digits 4 (year d) @ ''-'' @ last_digits 2 (month d) @ ''-'' @ last_digits 2 (day d)
     @ '' '' @ last_digits 2 (hour d) @ '':'' @ last_digits 2 (minute d) @ '':''
     @ last_digits 2 (second d) @ '','' @ last_digits 3 (microsecond d div 1000)"

definition example_disk :: disk where
  "example_disk = \<lparr>content = (\<lambda>f. []), writable = (\<lambda>f. True)\<rparr>"

section \<open>Properties of the upload run\<close>

subsection \<open>Effects of the loops\<close>

lemma queued_levels_append: "queued_levels (xs @ ys) = queued_levels xs @ queued_levels ys"
  by (induction xs) (auto split: option.splits)

lemma upload_one_effect:
  assumes "upload_one e b subdir file w = (w', go)"
  shows "uploads w' = uploads w @ [task_of b (subdir, file)]"
    and "\<exists>rs. log_queue w' = log_queue w @ map Some rs
           \<and> map levelname rs = queued_levels [outcome_of e (task_of b (subdir, file))]"
    and "go \<longleftrightarrow> outcome_of e (task_of b (subdir, file)) \<noteq> CredentialsMissing"
proof -
  show "uploads w' = uploads w @ [task_of b (subdir, file)]"
    using assms
    by (auto simp: upload_one_def task_of_def log_async_def logger_error_def print_def Let_def
        split: upload_outcome.splits option.splits)
  show "go \<longleftrightarrow> outcome_of e (task_of b (subdir, file)) \<noteq> CredentialsMissing"
    using assms
    by (auto simp: upload_one_def task_of_def outcome_of_def print_def Let_def
        split: upload_outcome.splits option.splits)
  show "\<exists>rs. log_queue w' = log_queue w @ map Some rs
           \<and> map levelname rs = queued_levels [outcome_of e (task_of b (subdir, file))]"
  proof (cases "attempt e (path_join subdir file) b file")
    case Success
    then show ?thesis using assms
      by (intro exI[of _ "[\<lparr>asctime = asctime_of (now e (ticks w)), levelname = ''INFO'',
             message = ''File '' @ file @ '' uploaded to '' @ b\<rparr>]"])
         (auto simp: upload_one_def task_of_def outcome_of_def log_async_def logger_error_def
            print_def Let_def split: option.splits)
  next
    case NotFound
    then show ?thesis using assms
      by (intro exI[of _ "[\<lparr>asctime = asctime_of (now e (ticks w)), levelname = ''ERROR'',
             message = ''The file '' @ file @ '' was not found''\<rparr>]"])
         (auto simp: upload_one_def task_of_def outcome_of_def log_async_def Let_def
            )
  next
    case CredentialsMissing
    then show ?thesis using assms
      by (intro exI[of _ "[\<lparr>asctime = asctime_of (now e (ticks w)), levelname = ''ERROR'',
             message = ''Credentials not available''\<rparr>]"])
         (auto simp: upload_one_def task_of_def outcome_of_def log_async_def Let_def
            )
  next
    case (OtherFailure err)
    then show ?thesis using assms
      by (intro exI[of _ "[]"])
         (auto simp: upload_one_def task_of_def outcome_of_def logger_error_def Let_def
            )
  qed
qed


text \<open>
  The inner loop attempts the first so many files of the directory, all of them unless one
  meets missing credentials.
\<close>

lemma upload_files_effect:
  "\<exists>n rs. n \<le> length files
     \<and> uploads (upload_files e b subdir files w)
         = uploads w @ map (\<lambda>file. task_of b (subdir, file)) (take n files)
     \<and> log_queue (upload_files e b subdir files w) = log_queue w @ map Some rs
     \<and> map levelname rs
         = queued_levels
             (map (\<lambda>file. outcome_of e (task_of b (subdir, file))) (take n files))
     \<and> ((\<forall>file \<in> set files. outcome_of e (task_of b (subdir, file)) \<noteq> CredentialsMissing)
           \<longrightarrow> n = length files)"
proof (induction files arbitrary: w)
  case Nil
  show ?case by (intro exI[of _ 0] exI[of _ "[]"]) simp
next
  case (Cons f fs)
  obtain w' go where one: "upload_one e b subdir f w = (w', go)"
    by (cases "upload_one e b subdir f w") auto
  from upload_one_effect[OF one] obtain r1 where
    u1: "uploads w' = uploads w @ [task_of b (subdir, f)]" and
    q1: "log_queue w' = log_queue w @ map Some r1" and
    l1: "map levelname r1 = queued_levels [outcome_of e (task_of b (subdir, f))]" and
    g1: "go \<longleftrightarrow> outcome_of e (task_of b (subdir, f)) \<noteq> CredentialsMissing"
    by blast
  show ?case
  proof (cases go)
    case False
    then have res: "upload_files e b subdir (f # fs) w = w'"
      using one by simp
    show ?thesis
      unfolding res using u1 q1 l1 g1 False
      by (intro exI[of _ "Suc 0"] exI[of _ r1]) auto
  next
    case True
    then have res: "upload_files e b subdir (f # fs) w = upload_files e b subdir fs w'"
      using one by simp
    from Cons.IH[of w'] obtain n rs where
      n: "n \<le> length fs" and
      u: "uploads (upload_files e b subdir fs w')
            = uploads w' @ map (\<lambda>file. task_of b (subdir, file)) (take n fs)" and
      q: "log_queue (upload_files e b subdir fs w') = log_queue w' @ map Some rs" and
      l: "map levelname rs = queued_levels
             (map (\<lambda>file. outcome_of e (task_of b (subdir, file))) (take n fs))" and
      a: "(\<forall>file \<in> set fs. outcome_of e (task_of b (subdir, file)) \<noteq> CredentialsMissing)
           \<longrightarrow> n = length fs"
      by blast
    have l': "map levelname (r1 @ rs) = queued_levels
             (map (\<lambda>file. outcome_of e (task_of b (subdir, file))) (take (Suc n) (f # fs)))"
      using l l1
        queued_levels_append[of "[outcome_of e (task_of b (subdir, f))]"
          "map (\<lambda>file. outcome_of e (task_of b (subdir, file))) (take n fs)"]
      by (simp del: queued_levels.simps)
    have c1: "Suc n \<le> length (f # fs)" using n by simp
    have c2: "uploads (upload_files e b subdir fs w')
         = uploads w @ map (\<lambda>file. task_of b (subdir, file)) (take (Suc n) (f # fs))"
      using u u1 by simp
    have c3: "log_queue (upload_files e b subdir fs w') = log_queue w @ map Some (r1 @ rs)"
      using q q1 by simp
    have c5: "(\<forall>file \<in> set (f # fs). outcome_of e (task_of b (subdir, file)) \<noteq> CredentialsMissing)
           \<longrightarrow> Suc n = length (f # fs)"
      using a by simp
    show ?thesis
      unfolding res using c1 c2 c3 l' c5 by blast
  qed
qed

lemma upload_walk_effect:
  "\<exists>ts rs.
       uploads (upload_walk e b entries w) = uploads w @ ts
     \<and> log_queue (upload_walk e b entries w) = log_queue w @ map Some rs
     \<and> map levelname rs = queued_levels (map (outcome_of e) ts)
     \<and> ((\<forall>t \<in> set (concat (map (\<lambda>(subdir, dirs, fs). map (\<lambda>f. (subdir, f)) fs) entries)).
            outcome_of e (task_of b t) \<noteq> CredentialsMissing)
          \<longrightarrow> ts = map (task_of b) (concat (map (\<lambda>(subdir, dirs, fs). map (\<lambda>f. (subdir, f)) fs) entries)))"
proof (induction entries arbitrary: w)
  case Nil
  show ?case by (intro exI[of _ "[]"]) simp
next
  case (Cons entry rest)
  obtain subdir dirs fs where entry: "entry = (subdir, dirs, fs)"
    by (cases entry) auto
  define w1 where "w1 = upload_files e b subdir fs w"
  have res: "upload_walk e b (entry # rest) w = upload_walk e b rest w1"
    by (simp add: entry w1_def)
  from upload_files_effect[of fs e b subdir w] obtain n r1 where
    n: "n \<le> length fs" and
    u1: "uploads w1 = uploads w @ map (\<lambda>f. task_of b (subdir, f)) (take n fs)" and
    q1: "log_queue w1 = log_queue w @ map Some r1" and
    l1: "map levelname r1
         = queued_levels (map (\<lambda>f. outcome_of e (task_of b (subdir, f))) (take n fs))" and
    a1: "(\<forall>f \<in> set fs. outcome_of e (task_of b (subdir, f)) \<noteq> CredentialsMissing)
           \<longrightarrow> n = length fs"
    unfolding w1_def by blast
  from Cons.IH[of w1] obtain ts rs where
    u: "uploads (upload_walk e b rest w1) = uploads w1 @ ts" and
    q: "log_queue (upload_walk e b rest w1) = log_queue w1 @ map Some rs" and
    l: "map levelname rs = queued_levels (map (outcome_of e) ts)" and
    a: "(\<forall>t \<in> set (concat (map (\<lambda>(subdir, dirs, fs). map (\<lambda>f. (subdir, f)) fs) rest)).
            outcome_of e (task_of b t) \<noteq> CredentialsMissing)
          \<longrightarrow> ts = map (task_of b) (concat (map (\<lambda>(subdir, dirs, fs). map (\<lambda>f. (subdir, f)) fs) rest))"
    by blast
  let ?t1 = "map (\<lambda>f. task_of b (subdir, f)) (take n fs)"
  have c1: "uploads (upload_walk e b rest w1) = uploads w @ (?t1 @ ts)"
    using u u1 by simp
  have c2: "log_queue (upload_walk e b rest w1) = log_queue w @ map Some (r1 @ rs)"
    using q q1 by simp
  have l1': "map levelname r1 = queued_levels (map (outcome_of e) ?t1)"
    using l1 by (simp add: comp_def)
  have c3: "map levelname (r1 @ rs) = queued_levels (map (outcome_of e) (?t1 @ ts))"
    using l l1' by (simp add: queued_levels_append del: queued_levels.simps)
  have c4: "(\<forall>t \<in> set (concat (map (\<lambda>(subdir, dirs, fs). map (\<lambda>f. (subdir, f)) fs) (entry # rest))).
            outcome_of e (task_of b t) \<noteq> CredentialsMissing)
          \<longrightarrow> ?t1 @ ts = map (task_of b) (concat (map (\<lambda>(subdir, dirs, fs). map (\<lambda>f. (subdir, f)) fs) (entry # rest)))"
  proof
    assume all: "\<forall>t \<in> set (concat (map (\<lambda>(subdir, dirs, fs). map (\<lambda>f. (subdir, f)) fs) (entry # rest))).
            outcome_of e (task_of b t) \<noteq> CredentialsMissing"
    have here: "\<forall>f \<in> set fs. outcome_of e (task_of b (subdir, f)) \<noteq> CredentialsMissing"
      using all unfolding entry by simp
    have later: "\<forall>t \<in> set (concat (map (\<lambda>(subdir, dirs, fs). map (\<lambda>f. (subdir, f)) fs) rest)).
            outcome_of e (task_of b t) \<noteq> CredentialsMissing"
      using all unfolding entry by simp
    have "n = length fs" using a1 here by blast
    moreover have "ts = map (task_of b) (concat (map (\<lambda>(subdir, dirs, fs). map (\<lambda>f. (subdir, f)) fs) rest))"
      using a later by blast
    ultimately show "?t1 @ ts = map (task_of b) (concat (map (\<lambda>(subdir, dirs, fs). map (\<lambda>f. (subdir, f)) fs) (entry # rest)))"
      unfolding entry by (simp add: comp_def)
  qed
  show ?case
    unfolding res using c1 c2 c3 c4 by blast
qed

lemma queued_levels_count:
  "length (queued_levels xs) + length (filter (\<lambda>x. queued_level x = None) xs) = length xs"
  by (induction xs) (auto split: option.splits)


subsection \<open>Records queued by a run\<close>

text \<open>
  Claim C2, as the code has it. A run attempts some files \<open>ts\<close> and puts on the queue one
  record for each attempted file whose outcome is Success (level INFO), NotFound or
  CredentialsMissing (level ERROR), in the order of the attempts, and then the terminating
  \<open>None\<close>. An attempt that ends in any other exception puts nothing on the queue: its
  message goes to the console handler of the logger. So the number of records is the
  number of attempts less those other failures, and when no enumerated file meets missing
  credentials the attempts are all the enumerated files.
\<close>

theorem run_queues_one_record_unless_other_failure:
  "\<exists>ts rs.
       uploads (upload_directory_to_s3 e path root b w) = uploads w @ ts
     \<and> log_queue (upload_directory_to_s3 e path root b w) = log_queue w @ map Some rs @ [None]
     \<and> map levelname rs = queued_levels (map (outcome_of e) ts)
     \<and> length rs + length (filter (\<lambda>t. queued_level (outcome_of e t) = None) ts) = length ts
     \<and> ((\<forall>t \<in> set (enumerated path root). outcome_of e (task_of b t) \<noteq> CredentialsMissing)
          \<longrightarrow> ts = map (task_of b) (enumerated path root))"
proof -
  from upload_walk_effect[of e b "os_walk path root" w] obtain ts rs where
    u: "uploads (upload_walk e b (os_walk path root) w) = uploads w @ ts" and
    q: "log_queue (upload_walk e b (os_walk path root) w) = log_queue w @ map Some rs" and
    l: "map levelname rs = queued_levels (map (outcome_of e) ts)" and
    a: "(\<forall>t \<in> set (enumerated path root). outcome_of e (task_of b t) \<noteq> CredentialsMissing)
          \<longrightarrow> ts = map (task_of b) (enumerated path root)"
    unfolding enumerated_def by blast
  have "length (map levelname rs) + length (filter (\<lambda>x. queued_level x = None) (map (outcome_of e) ts))
          = length (map (outcome_of e) ts)"
    unfolding l by (rule queued_levels_count)
  then have n: "length rs + length (filter (\<lambda>t. queued_level (outcome_of e t) = None) ts) = length ts"
    by (simp add: filter_map comp_def)
  have u': "uploads (upload_directory_to_s3 e path root b w) = uploads w @ ts"
    using u by (simp add: upload_directory_to_s3_def Let_def)
  have q': "log_queue (upload_directory_to_s3 e path root b w) = log_queue w @ map Some rs @ [None]"
    using q by (simp add: upload_directory_to_s3_def Let_def)
  show ?thesis using u' q' l n a by blast
qed

theorem run_queues_one_record_unless_other_failure_witness:
  "\<exists>ts rs.
       uploads (upload_directory_to_s3
           \<lparr>attempt = (\<lambda>p b k. if k = ''b.txt'' then NotFound else Success), now = example_clock, print_raises = (\<lambda>l. None)\<rparr>
           ''r'' (Some (Dir [''a.txt'', ''b.txt'', ''c.txt''] [])) ''bkt'' fresh_world)
         = uploads fresh_world @ ts
     \<and> log_queue (upload_directory_to_s3
           \<lparr>attempt = (\<lambda>p b k. if k = ''b.txt'' then NotFound else Success), now = example_clock, print_raises = (\<lambda>l. None)\<rparr>
           ''r'' (Some (Dir [''a.txt'', ''b.txt'', ''c.txt''] [])) ''bkt'' fresh_world)
         = log_queue fresh_world @ map Some rs @ [None]
     \<and> map levelname rs = [''INFO'', ''ERROR'', ''INFO'']
     \<and> ts = [(''r/a.txt'', ''bkt'', ''a.txt''), (''r/b.txt'', ''bkt'', ''b.txt''),
             (''r/c.txt'', ''bkt'', ''c.txt'')]"
proof -
  let ?e = "\<lparr>attempt = (\<lambda>p b k. if k = ''b.txt'' then NotFound else Success), now = example_clock, print_raises = (\<lambda>l. None)\<rparr>"
  let ?root = "Some (Dir [''a.txt'', ''b.txt'', ''c.txt''] [])"
  have en: "map (task_of ''bkt'') (enumerated ''r'' ?root)
          = [(''r/a.txt'', ''bkt'', ''a.txt''), (''r/b.txt'', ''bkt'', ''b.txt''),
             (''r/c.txt'', ''bkt'', ''c.txt'')]"
    by (simp add: enumerated_def task_of_def path_join_def)
  have h: "\<forall>t \<in> set (enumerated ''r'' ?root). outcome_of ?e (task_of ''bkt'' t) \<noteq> CredentialsMissing"
    by (simp add: enumerated_def task_of_def outcome_of_def)
  from run_queues_one_record_unless_other_failure[of ?e "''r''" ?root "''bkt''" fresh_world]
  obtain ts rs where
    u: "uploads (upload_directory_to_s3 ?e ''r'' ?root ''bkt'' fresh_world) = uploads fresh_world @ ts" and
    q: "log_queue (upload_directory_to_s3 ?e ''r'' ?root ''bkt'' fresh_world)
          = log_queue fresh_world @ map Some rs @ [None]" and
    l: "map levelname rs = queued_levels (map (outcome_of ?e) ts)" and
    a: "(\<forall>t \<in> set (enumerated ''r'' ?root). outcome_of ?e (task_of ''bkt'' t) \<noteq> CredentialsMissing)
          \<longrightarrow> ts = map (task_of ''bkt'') (enumerated ''r'' ?root)"
    by blast
  have ts: "ts = [(''r/a.txt'', ''bkt'', ''a.txt''), (''r/b.txt'', ''bkt'', ''b.txt''),
             (''r/c.txt'', ''bkt'', ''c.txt'')]"
    using a h en by simp
  have l': "map levelname rs = [''INFO'', ''ERROR'', ''INFO'']"
    unfolding l ts by (simp add: outcome_of_def)
  show ?thesis
    by (rule exI[of _ ts], rule exI[of _ rs]) (intro conjI u q l' ts)
qed

text \<open>
  The claim as written fails at a file whose upload raises another exception: one file
  is attempted, nothing halts the run, and the queue receives the terminating \<open>None\<close>
  only.
\<close>

theorem other_failure_queues_no_record:
  "uploads (upload_directory_to_s3
       \<lparr>attempt = (\<lambda>p b k. OtherFailure ''timeout''), now = example_clock, print_raises = (\<lambda>l. None)\<rparr>
       ''r'' (Some (Dir [''a.txt''] [])) ''bkt'' fresh_world)
     = [(''r/a.txt'', ''bkt'', ''a.txt'')]
   \<and> log_queue (upload_directory_to_s3
       \<lparr>attempt = (\<lambda>p b k. OtherFailure ''timeout''), now = example_clock, print_raises = (\<lambda>l. None)\<rparr>
       ''r'' (Some (Dir [''a.txt''] [])) ''bkt'' fresh_world)
     = [None]"
  by (simp add: upload_directory_to_s3_def upload_one_def path_join_def logger_error_def
      fresh_world_def)

subsection \<open>Missing credentials\<close>

text \<open>
  Claim C1 says that after an upload that meets missing credentials no later file of the
  walk is attempted. The \<^verbatim>\<open>break\<close> leaves the loop over the files of one directory;
  the loop over \<^verbatim>\<open>os.walk\<close> goes on. Here the root holds \<open>a.txt\<close>, whose upload meets
  missing credentials, and a subdirectory with \<open>b.txt\<close>: the run attempts both files and
  queues a record for \<open>b.txt\<close> after the one for the halt.
\<close>

theorem credentials_halt_leaves_only_inner_loop:
  "uploads (upload_directory_to_s3
       \<lparr>attempt = (\<lambda>p b k. if k = ''a.txt'' then CredentialsMissing else Success),
         now = example_clock, print_raises = (\<lambda>l. None)\<rparr>
       ''r'' (Some (Dir [''a.txt''] [(''sub'', Dir [''b.txt''] [])])) ''bkt'' fresh_world)
     = [(''r/a.txt'', ''bkt'', ''a.txt''), (''r/sub/b.txt'', ''bkt'', ''b.txt'')]
   \<and> map (map_option (\<lambda>r. (levelname r, message r)))
       (log_queue (upload_directory_to_s3
          \<lparr>attempt = (\<lambda>p b k. if k = ''a.txt'' then CredentialsMissing else Success),
            now = example_clock, print_raises = (\<lambda>l. None)\<rparr>
          ''r'' (Some (Dir [''a.txt''] [(''sub'', Dir [''b.txt''] [])])) ''bkt'' fresh_world))
     = [Some (''ERROR'', ''Credentials not available''),
        Some (''INFO'', ''File b.txt uploaded to bkt''), None]"
  by (simp add: upload_directory_to_s3_def upload_one_def path_join_def log_async_def print_def
      fresh_world_def)

subsection \<open>A root that is missing or empty\<close>



subsection \<open>What reaches the console\<close>

text \<open>
  Claim C7, as the code has it. A successful upload prints one line on standard output;
  when that \<^verbatim>\<open>print\<close> raises, nothing is printed and the failure is reported by one
  line through the console handler of the logger instead. An upload that ends in
  another exception emits one line through the console handler of the logger. An upload
  that finds no file, or no credentials, writes nothing to the console: its message is
  queued for the log files only.
\<close>

theorem console_echo_by_outcome:
  "upload_one e b subdir f w = (w', go) \<Longrightarrow>
     (case attempt e (path_join subdir f) b f of
        Success \<Rightarrow>
          (case print_raises e (''File '' @ f @ '' uploaded to '' @ b) of
             None \<Rightarrow>
               stdout w' = stdout w @ [''File '' @ f @ '' uploaded to '' @ b]
               \<and> console w' = console w
           | Some err \<Rightarrow>
               stdout w' = stdout w \<and>
               console w' = console w @ [asctime_of (now e (Suc (ticks w))) @ '' - ERROR - ''
                                          @ ''Error uploading file '' @ f @ '': '' @ err])
      | OtherFailure err \<Rightarrow>
          stdout w' = stdout w \<and>
          console w' = console w @ [asctime_of (now e (ticks w)) @ '' - ERROR - ''
                                     @ ''Error uploading file '' @ f @ '': '' @ err]
      | NotFound \<Rightarrow> stdout w' = stdout w \<and> console w' = console w
      | CredentialsMissing \<Rightarrow> stdout w' = stdout w \<and> console w' = console w)"
  by (auto simp: upload_one_def log_async_def logger_error_def print_def Let_def
      split: upload_outcome.splits option.splits)

theorem console_echo_by_outcome_witness:
  "stdout (fst (upload_one
       \<lparr>attempt = (\<lambda>p b k. Success), now = example_clock,
         print_raises = (\<lambda>l. if l = ''File bad.txt uploaded to bkt'' then Some ''codec'' else None)\<rparr>
       ''bkt'' ''r'' ''a.txt'' fresh_world)) = [''File a.txt uploaded to bkt'']
   \<and> console (fst (upload_one
       \<lparr>attempt = (\<lambda>p b k. Success), now = example_clock,
         print_raises = (\<lambda>l. if l = ''File bad.txt uploaded to bkt'' then Some ''codec'' else None)\<rparr>
       ''bkt'' ''r'' ''a.txt'' fresh_world)) = []
   \<and> stdout (fst (upload_one
       \<lparr>attempt = (\<lambda>p b k. Success), now = example_clock,
         print_raises = (\<lambda>l. if l = ''File bad.txt uploaded to bkt'' then Some ''codec'' else None)\<rparr>
       ''bkt'' ''r'' ''bad.txt'' fresh_world)) = []
   \<and> console (fst (upload_one
       \<lparr>attempt = (\<lambda>p b k. Success), now = example_clock,
         print_raises = (\<lambda>l. if l = ''File bad.txt uploaded to bkt'' then Some ''codec'' else None)\<rparr>
       ''bkt'' ''r'' ''bad.txt'' fresh_world))
     = [asctime_of (example_clock (Suc 0)) @ '' - ERROR - Error uploading file bad.txt: codec'']"
proof -
  let ?e = "\<lparr>attempt = (\<lambda>p b k. Success), now = example_clock,
         print_raises = (\<lambda>l. if l = ''File bad.txt uploaded to bkt'' then Some ''codec'' else None)\<rparr>"
  have good: "stdout (fst (upload_one ?e ''bkt'' ''r'' ''a.txt'' fresh_world))
                = [''File a.txt uploaded to bkt'']
              \<and> console (fst (upload_one ?e ''bkt'' ''r'' ''a.txt'' fresh_world)) = []"
    using console_echo_by_outcome
            [of ?e "''bkt''" "''r''" "''a.txt''" fresh_world
                "fst (upload_one ?e ''bkt'' ''r'' ''a.txt'' fresh_world)"
                "snd (upload_one ?e ''bkt'' ''r'' ''a.txt'' fresh_world)"]
    by (simp add: fresh_world_def)
  have bad: "stdout (fst (upload_one ?e ''bkt'' ''r'' ''bad.txt'' fresh_world)) = []
              \<and> console (fst (upload_one ?e ''bkt'' ''r'' ''bad.txt'' fresh_world))
                  = [asctime_of (example_clock (Suc 0))
                       @ '' - ERROR - Error uploading file bad.txt: codec'']"
    using console_echo_by_outcome
            [of ?e "''bkt''" "''r''" "''bad.txt''" fresh_world
                "fst (upload_one ?e ''bkt'' ''r'' ''bad.txt'' fresh_world)"
                "snd (upload_one ?e ''bkt'' ''r'' ''bad.txt'' fresh_world)"]
    by (simp add: fresh_world_def)
  show ?thesis using good bad by simp
qed

text \<open>
  The claim as written fails on a run whose two uploads find no file and no credentials:
  both are attempted and the console stays empty.
\<close>

theorem not_found_and_credentials_not_echoed:
  "uploads (upload_directory_to_s3
       \<lparr>attempt = (\<lambda>p b k. if k = ''b.txt'' then NotFound else CredentialsMissing),
         now = example_clock, print_raises = (\<lambda>l. None)\<rparr>
       ''r'' (Some (Dir [''b.txt'', ''c.txt''] [])) ''bkt'' fresh_world)
     = [(''r/b.txt'', ''bkt'', ''b.txt''), (''r/c.txt'', ''bkt'', ''c.txt'')]
   \<and> stdout (upload_directory_to_s3
       \<lparr>attempt = (\<lambda>p b k. if k = ''b.txt'' then NotFound else CredentialsMissing),
         now = example_clock, print_raises = (\<lambda>l. None)\<rparr>
       ''r'' (Some (Dir [''b.txt'', ''c.txt''] [])) ''bkt'' fresh_world) = []
   \<and> console (upload_directory_to_s3
       \<lparr>attempt = (\<lambda>p b k. if k = ''b.txt'' then NotFound else CredentialsMissing),
         now = example_clock, print_raises = (\<lambda>l. None)\<rparr>
       ''r'' (Some (Dir [''b.txt'', ''c.txt''] [])) ''bkt'' fresh_world) = []"
  by (simp add: upload_directory_to_s3_def upload_one_def path_join_def log_async_def
      fresh_world_def)

section \<open>Properties of the log lines\<close>

subsection \<open>The time stamp\<close>

lemma digit_char_0: "digit_char 0 = CHR ''0''"
  by code_simp

lemma last_digits_0: "last_digits w 0 = replicate w CHR ''0''"
  by (induction w) (simp_all add: digit_char_0 replicate_append_same)

lemma length_last_digits: "length (last_digits w n) = w"
  by (induction w arbitrary: n) simp_all

lemma length_decimal_pos: "0 < length (decimal n)"
  by (subst decimal.simps) simp

lemma zero_padded_last_digits:
  "n < 10 ^ Suc w \<Longrightarrow> zero_padded (Suc w) n = last_digits (Suc w) n"
proof (induction w arbitrary: n)
  case 0
  then have "decimal n = [digit_char n]" by (subst decimal.simps) simp
  then show ?case by (simp add: zero_padded_def)
next
  case (Suc w)
  show ?case
  proof (cases "n < 10")
    case True
    then have "decimal n = [digit_char n]" by (subst decimal.simps) simp
    moreover have "n div 10 = 0" using True by simp
    ultimately show ?thesis
      by (simp add: zero_padded_def last_digits_0 digit_char_0 replicate_append_same)
  next
    case False
    then have d: "decimal n = decimal (n div 10) @ [digit_char n]"
      by (subst decimal.simps) simp
    have "n div 10 < 10 ^ Suc w" using Suc.prems by simp
    then have ih: "zero_padded (Suc w) (n div 10) = last_digits (Suc w) (n div 10)"
      by (rule Suc.IH)
    have "zero_padded (Suc (Suc w)) n = zero_padded (Suc w) (n div 10) @ [digit_char n]"
      by (simp add: zero_padded_def d)
    then show ?thesis using ih by simp
  qed
qed

lemma last_digits_add:
  "last_digits (a + b) n = last_digits a (n div 10 ^ b) @ last_digits b n"
proof (induction b arbitrary: n)
  case 0
  show ?case by simp
next
  case (Suc b)
  have "n div 10 div 10 ^ b = n div 10 ^ Suc b"
    by (simp add: div_mult2_eq)
  then show ?case using Suc[of "n div 10"] by simp
qed

lemma zero_padded_2: "n < 100 \<Longrightarrow> zero_padded 2 n = last_digits 2 n"
proof -
  assume "n < 100"
  then have "n < 10 ^ Suc (Suc 0)" by simp
  then have "zero_padded (Suc (Suc 0)) n = last_digits (Suc (Suc 0)) n"
    by (rule zero_padded_last_digits)
  then show ?thesis by (simp only: numeral_2_eq_2)
qed

lemma zero_padded_4: "n < 10000 \<Longrightarrow> zero_padded 4 n = last_digits 4 n"
proof -
  assume "n < 10000"
  then have "n < 10 ^ Suc 3" by simp
  moreover have "Suc 3 = 4" by simp
  ultimately show ?thesis using zero_padded_last_digits[of n 3] by simp
qed

lemma zero_padded_6_cut:
  assumes "n < 1000000"
  shows "zero_padded 6 n = last_digits 3 (n div 1000) @ last_digits 3 n"
proof -
  have "n < 10 ^ Suc 5" using assms by simp
  moreover have "Suc 5 = 6" by simp
  ultimately have "zero_padded 6 n = last_digits 6 n"
    using zero_padded_last_digits[of n 5] by simp
  also have "\<dots> = last_digits (3 + 3) n" by simp
  also have "\<dots> = last_digits 3 (n div 10 ^ 3) @ last_digits 3 n"
    by (rule last_digits_add)
  finally show ?thesis by simp
qed

lemma drop_last3_append: "length t = 3 \<Longrightarrow> drop_last3 (s @ t) = s"
  by (simp add: drop_last3_def)

lemma asctime_of_millisecond_stamp:
  assumes "valid_datetime d"
  shows "asctime_of d = millisecond_stamp d"
proof -
  from assms have y: "zero_padded 4 (year d) = last_digits 4 (year d)"
    and mo: "zero_padded 2 (month d) = last_digits 2 (month d)"
    and da: "zero_padded 2 (day d) = last_digits 2 (day d)"
    and h: "zero_padded 2 (hour d) = last_digits 2 (hour d)"
    and mi: "zero_padded 2 (minute d) = last_digits 2 (minute d)"
    and se: "zero_padded 2 (second d) = last_digits 2 (second d)"
    and us: "zero_padded 6 (microsecond d)
             = last_digits 3 (microsecond d div 1000) @ last_digits 3 (microsecond d)"
    by (simp_all add: valid_datetime_def zero_padded_2 zero_padded_4 zero_padded_6_cut)
  have "strftime d = millisecond_stamp d @ last_digits 3 (microsecond d)"
    unfolding strftime_def millisecond_stamp_def y mo da h mi se us by simp
  then show ?thesis
    unfolding asctime_of_def by (simp add: drop_last3_append length_last_digits)
qed


lemma last_digits_2: "last_digits 2 n = [digit_char (n div 10), digit_char n]"
  by (simp add: numeral_2_eq_2)

lemma digit_char_nth: "digit_char n = ''0123456789'' ! (n mod 10)"
proof -
  have c: "char_of (48::nat) = CHR ''0''" "char_of (49::nat) = CHR ''1''"
    "char_of (50::nat) = CHR ''2''" "char_of (51::nat) = CHR ''3''"
    "char_of (52::nat) = CHR ''4''" "char_of (53::nat) = CHR ''5''"
    "char_of (54::nat) = CHR ''6''" "char_of (55::nat) = CHR ''7''"
    "char_of (56::nat) = CHR ''8''" "char_of (57::nat) = CHR ''9''"
    by code_simp+
  have "k < 10 \<Longrightarrow> k = 0 \<or> k = 1 \<or> k = 2 \<or> k = 3 \<or> k = 4 \<or> k = 5 \<or> k = 6
           \<or> k = 7 \<or> k = 8 \<or> k = 9" for k :: nat
    by arith
  from this[of "n mod 10"]
  consider "n mod 10 = 0" | "n mod 10 = 1" | "n mod 10 = 2" | "n mod 10 = 3"
    | "n mod 10 = 4" | "n mod 10 = 5" | "n mod 10 = 6" | "n mod 10 = 7" | "n mod 10 = 8"
    | "n mod 10 = 9"
    by auto
  then show ?thesis
    by cases (simp_all add: digit_char_def c)
qed

lemma last_digits_3:
  "last_digits 3 n = [digit_char (n div 100), digit_char (n div 10), digit_char n]"
  by (simp add: numeral_3_eq_3 div_mult2_eq[symmetric])

lemma last_digits_4:
  "last_digits 4 n
     = [digit_char (n div 1000), digit_char (n div 100), digit_char (n div 10), digit_char n]"
proof -
  have e: "(4::nat) = Suc 3" by simp
  show ?thesis
    unfolding e last_digits.simps(2) last_digits_3
    by (simp add: div_mult2_eq[symmetric])
qed

lemma example_stamp: "millisecond_stamp (example_clock k) = ''2024-03-09 14:05:07,123''"
  by (simp add: millisecond_stamp_def example_clock_def last_digits_2 last_digits_3
      last_digits_4 digit_char_nth)

lemma of_char_digit_char: "of_char (digit_char n) = (48 + n mod 10 :: nat)"
  by (simp add: digit_char_def)

lemma digit_char_not_line_break: "digit_char n \<noteq> CHR 0x0A"
proof
  assume "digit_char n = CHR 0x0A"
  then have "(of_char (digit_char n) :: nat) = of_char CHR 0x0A" by simp
  then show False by (simp add: of_char_digit_char)
qed

lemma line_break_notin_last_digits: "CHR 0x0A \<notin> set (last_digits w n)"
  by (induction w arbitrary: n) (simp_all add: digit_char_not_line_break[symmetric])

lemma line_break_notin_millisecond_stamp: "CHR 0x0A \<notin> set (millisecond_stamp d)"
  by (simp add: millisecond_stamp_def line_break_notin_last_digits)

lemma example_asctime: "asctime_of (example_clock k) = ''2024-03-09 14:05:07,123''"
proof -
  have "valid_datetime (example_clock k)"
    by (simp add: valid_datetime_def example_clock_def)
  then show ?thesis
    using asctime_of_millisecond_stamp[of "example_clock k"] example_stamp[of k] by simp
qed

subsection \<open>Routing and format of a written record\<close>

text \<open>
  Claim C6, as the code has it. An iteration of the handler that takes a record off the
  queue appends to the error file exactly when the level of the record is ERROR, and to
  the info file otherwise, the text made of time stamp, level and message joined by
  \<open>'' - ''\<close> and then one line break (the character with code 10); what the file held
  stays in front of it and the other file is untouched. The text before that line break
  is one line whenever time stamp, level and message hold no line break. The record that
  \<^verbatim>\<open>log_async\<close> queues carries the clock reading as \<^verbatim>\<open>YYYY-MM-DD HH:MM:SS,mmm\<close>,
  23 characters with the milliseconds last and no line break among them.
\<close>

theorem handler_routes_and_formats_record:
  assumes "handler s = Running" and "queue s = Some r # q"
    and "writable (log_files s) (if levelname r = ''ERROR'' then ERROR_LOG_FILE else INFO_LOG_FILE)"
    and "valid_datetime (now e (ticks w))"
  shows "run_iteration s =
           s\<lparr>queue := q,
             log_files := (log_files s)\<lparr>content :=
               (content (log_files s))
                 ((if levelname r = ''ERROR'' then ERROR_LOG_FILE else INFO_LOG_FILE) :=
                    content (log_files s)
                      (if levelname r = ''ERROR'' then ERROR_LOG_FILE else INFO_LOG_FILE)
                    @ (asctime r @ '' - '' @ levelname r @ '' - '' @ message r) @ [CHR 0x0A])\<rparr>\<rparr>
       \<and> (CHR 0x0A \<notin> set (asctime r) \<and> CHR 0x0A \<notin> set (levelname r)
            \<and> CHR 0x0A \<notin> set (message r)
          \<longrightarrow> CHR 0x0A \<notin> set (asctime r @ '' - '' @ levelname r @ '' - '' @ message r))
       \<and> log_queue (log_async e level msg w) =
           log_queue w @ [Some \<lparr>asctime = millisecond_stamp (now e (ticks w)),
                                levelname = level, message = msg\<rparr>]
       \<and> length (millisecond_stamp (now e (ticks w))) = 23
       \<and> CHR 0x0A \<notin> set (millisecond_stamp (now e (ticks w)))"
proof (intro conjI)
  show "run_iteration s =
           s\<lparr>queue := q,
             log_files := (log_files s)\<lparr>content :=
               (content (log_files s))
                 ((if levelname r = ''ERROR'' then ERROR_LOG_FILE else INFO_LOG_FILE) :=
                    content (log_files s)
                      (if levelname r = ''ERROR'' then ERROR_LOG_FILE else INFO_LOG_FILE)
                    @ (asctime r @ '' - '' @ levelname r @ '' - '' @ message r) @ [CHR 0x0A])\<rparr>\<rparr>"
    using assms(1,2,3)
    by (simp add: run_iteration_def write_log_def format_def newline_def Let_def)
  show "CHR 0x0A \<notin> set (asctime r) \<and> CHR 0x0A \<notin> set (levelname r)
            \<and> CHR 0x0A \<notin> set (message r)
          \<longrightarrow> CHR 0x0A \<notin> set (asctime r @ '' - '' @ levelname r @ '' - '' @ message r)"
    by simp
  show "log_queue (log_async e level msg w) =
           log_queue w @ [Some \<lparr>asctime = millisecond_stamp (now e (ticks w)),
                                levelname = level, message = msg\<rparr>]"
    using asctime_of_millisecond_stamp[OF assms(4)] by (simp add: log_async_def)
  show "length (millisecond_stamp (now e (ticks w))) = 23"
    by (simp add: millisecond_stamp_def length_last_digits)
  show "CHR 0x0A \<notin> set (millisecond_stamp (now e (ticks w)))"
    by (rule line_break_notin_millisecond_stamp)
qed

theorem handler_routes_and_formats_record_witness:
  "run_iteration
      \<lparr>queue = [Some \<lparr>asctime = ''2024-03-09 14:05:07,123'', levelname = ''ERROR'',
                       message = ''Credentials not available''\<rparr>],
        handler = Running, log_files = example_disk\<rparr>
     = \<lparr>queue = [], handler = Running,
        log_files = \<lparr>content = (content example_disk)
            (ERROR_LOG_FILE :=
               ''2024-03-09 14:05:07,123 - ERROR - Credentials not available'' @ [CHR 0x0A]),
          writable = writable example_disk\<rparr>\<rparr>
   \<and> CHR 0x0A \<notin> set ''2024-03-09 14:05:07,123 - ERROR - Credentials not available''
   \<and> log_queue (log_async \<lparr>attempt = (\<lambda>p b k. CredentialsMissing), now = example_clock, print_raises = (\<lambda>l. None)\<rparr>
        ''ERROR'' ''Credentials not available'' fresh_world)
     = [Some \<lparr>asctime = ''2024-03-09 14:05:07,123'', levelname = ''ERROR'',
              message = ''Credentials not available''\<rparr>]"
proof -
  let ?r = "\<lparr>asctime = ''2024-03-09 14:05:07,123'', levelname = ''ERROR'',
                       message = ''Credentials not available''\<rparr>"
  let ?s = "\<lparr>queue = [Some ?r], handler = Running, log_files = example_disk\<rparr>"
  let ?e = "\<lparr>attempt = (\<lambda>p b k. CredentialsMissing), now = example_clock, print_raises = (\<lambda>l. None)\<rparr>"
  have h1: "handler ?s = Running" by simp
  have h2: "queue ?s = Some ?r # []" by simp
  have h3: "writable (log_files ?s)
              (if levelname ?r = ''ERROR'' then ERROR_LOG_FILE else INFO_LOG_FILE)"
    by (simp add: example_disk_def)
  have h4: "valid_datetime (now ?e (ticks fresh_world))"
    by (simp add: valid_datetime_def example_clock_def)
  have t: "millisecond_stamp (example_clock 0) = ''2024-03-09 14:05:07,123''"
    by (rule example_stamp)
  show ?thesis
    using handler_routes_and_formats_record[OF h1 h2 h3 h4, of "''ERROR''" "''Credentials not available''"] t
    by (simp add: fresh_world_def example_disk_def)
qed

text \<open>
  The claim as written says that every record is written as one line. A file whose name
  holds a line break is uploaded, its record is queued and the handler writes it: the
  info file then holds two lines for the one record.
\<close>

theorem message_with_line_break_spans_two_lines:
  "content (log_files (execute
       (map Put (log_queue (upload_directory_to_s3
          \<lparr>attempt = (\<lambda>p b k. Success), now = example_clock, print_raises = (\<lambda>l. None)\<rparr>
          ''r'' (Some (Dir [''a'' @ [CHR 0x0A] @ ''b''] [])) ''bkt'' fresh_world))
        @ [Handler])
       (module_init example_disk))) INFO_LOG_FILE
     = ''2024-03-09 14:05:07,123 - INFO - File a'' @ [CHR 0x0A] @ ''b uploaded to bkt''
       @ [CHR 0x0A]"
  by (simp add: upload_directory_to_s3_def upload_one_def path_join_def log_async_def print_def
      fresh_world_def example_asctime execute_def module_init_def run_iteration_def
      write_log_def format_def newline_def example_disk_def)

subsection \<open>Reading a line back\<close>

lemma digit_char_not_space: "digit_char n \<noteq> CHR '' ''"
proof
  assume "digit_char n = CHR '' ''"
  then have "(of_char (digit_char n) :: nat) = of_char CHR '' ''" by simp
  then show False by (simp add: of_char_digit_char)
qed

lemma digit_char_not_dash: "digit_char n \<noteq> CHR ''-''"
proof
  assume "digit_char n = CHR ''-''"
  then have "(of_char (digit_char n) :: nat) = of_char CHR ''-''" by simp
  then show False by (simp add: of_char_digit_char)
qed

lemma space_notin_last_digits: "CHR '' '' \<notin> set (last_digits w n)"
  by (induction w arbitrary: n) (simp_all add: digit_char_not_space[symmetric])

lemma split_from_nonempty: "split_from sep cur s \<noteq> []"
proof (induction sep cur s rule: split_from.induct)
  case (1 sep cur s)
  then show ?case by (subst split_from.simps) auto
qed

lemma str_join_Cons: "xs \<noteq> [] \<Longrightarrow> str_join sep (x # xs) = x @ sep @ str_join sep xs"
  by (cases xs) simp_all

lemma str_join_split_from: "str_join sep (split_from sep cur s) = cur @ s"
proof (induction sep cur s rule: split_from.induct)
  case (1 sep cur s)
  show ?case
  proof (cases "s = []")
    case True
    then show ?thesis by (subst split_from.simps) simp
  next
    case False
    show ?thesis
    proof (cases "sep \<noteq> [] \<and> take (length sep) s = sep")
      case True
      then have "split_from sep cur s = cur # split_from sep [] (drop (length sep) s)"
        using False by (subst split_from.simps) simp
      moreover have "str_join sep (split_from sep [] (drop (length sep) s)) = drop (length sep) s"
        using 1(1)[OF False True] by simp
      moreover have "sep @ drop (length sep) s = s"
        using True append_take_drop_id[of "length sep" s] by simp
      ultimately show ?thesis
        by (simp add: str_join_Cons split_from_nonempty)
    next
      case nomatch: False
      then have "split_from sep cur s = split_from sep (cur @ [hd s]) (tl s)"
        using False by (subst split_from.simps) auto
      moreover have "str_join sep (split_from sep (cur @ [hd s]) (tl s)) = (cur @ [hd s]) @ tl s"
        using 1(2)[OF False nomatch] .
      ultimately show ?thesis using False by simp
    qed
  qed
qed

lemma split_from_skip:
  "sep \<noteq> [] \<Longrightarrow> hd sep \<notin> set a \<Longrightarrow> split_from sep cur (a @ t) = split_from sep (cur @ a) t"
proof (induction a arbitrary: cur)
  case Nil
  show ?case by simp
next
  case (Cons x a)
  have "take (length sep) (x # a @ t) \<noteq> sep"
  proof
    assume "take (length sep) (x # a @ t) = sep"
    then have "hd sep = x" using Cons.prems(1) by (cases sep) auto
    then show False using Cons.prems(2) by simp
  qed
  then have "split_from sep cur ((x # a) @ t) = split_from sep (cur @ [x]) (a @ t)"
    by (subst split_from.simps) simp
  also have "\<dots> = split_from sep ((cur @ [x]) @ a) t"
    using Cons.prems by (intro Cons.IH) simp_all
  finally show ?case by simp
qed

lemma split_from_match:
  "sep \<noteq> [] \<Longrightarrow> split_from sep cur (sep @ t) = cur # split_from sep [] t"
  by (subst split_from.simps) simp

lemma split_from_lone_space:
  "c \<noteq> CHR ''-'' \<Longrightarrow>
   split_from '' - '' cur (CHR '' '' # c # t) = split_from '' - '' (cur @ '' '') (c # t)"
  by (subst split_from.simps) simp

lemma split_stamped_line:
  "split_from '' - '' [] (millisecond_stamp d @ '' - '' @ S @ '' - '' @ M)
     = millisecond_stamp d # split_from '' - '' [] (S @ '' - '' @ M)"
proof -
  define D where "D = last_digits 4 (year d) @ ''-'' @ last_digits 2 (month d) @ ''-''
                      @ last_digits 2 (day d)"
  define T where "T = [digit_char (hour d)] @ '':'' @ last_digits 2 (minute d) @ '':''
                      @ last_digits 2 (second d) @ '','' @ last_digits 3 (microsecond d div 1000)"
  define c where "c = digit_char (hour d div 10)"
  have stamp: "millisecond_stamp d = D @ CHR '' '' # c # T"
    by (simp add: millisecond_stamp_def D_def T_def c_def last_digits_2)
  have sD: "CHR '' '' \<notin> set D"
    by (simp add: D_def space_notin_last_digits)
  have sT: "CHR '' '' \<notin> set (c # T)"
    by (simp add: T_def c_def space_notin_last_digits digit_char_not_space[symmetric])
  have c: "c \<noteq> CHR ''-''"
    by (simp add: c_def digit_char_not_dash)
  let ?rest = "'' - '' @ S @ '' - '' @ M"
  have "split_from '' - '' [] (millisecond_stamp d @ ?rest)
          = split_from '' - '' [] (D @ (CHR '' '' # c # T @ ?rest))"
    by (simp add: stamp)
  also have "\<dots> = split_from '' - '' ([] @ D) (CHR '' '' # c # T @ ?rest)"
    using sD by (intro split_from_skip) simp_all
  also have "\<dots> = split_from '' - '' (D @ '' '') (c # T @ ?rest)"
    using c by (simp add: split_from_lone_space)
  also have "\<dots> = split_from '' - '' (D @ '' '') ((c # T) @ ?rest)"
    by simp
  also have "\<dots> = split_from '' - '' ((D @ '' '') @ (c # T)) ?rest"
    using sT by (intro split_from_skip) simp_all
  also have "\<dots> = ((D @ '' '') @ (c # T)) # split_from '' - '' [] (S @ '' - '' @ M)"
    using split_from_match[of "'' - ''" "(D @ '' '') @ (c # T)" "S @ '' - '' @ M"] by simp
  finally show ?thesis by (simp add: stamp)
qed

lemma split_level:
  assumes "CHR '' '' \<notin> set S"
  shows "split_from '' - '' [] (S @ '' - '' @ M) = S # split_from '' - '' [] M"
proof -
  have "split_from '' - '' [] (S @ '' - '' @ M) = split_from '' - '' ([] @ S) ('' - '' @ M)"
    using assms by (intro split_from_skip) simp_all
  also have "\<dots> = S # split_from '' - '' [] M"
    using split_from_match[of "'' - ''" S M] by simp
  finally show ?thesis .
qed


text \<open>
  Claim C8. Splitting the line written for a message \<open>M\<close> and a level \<open>S\<close> (a level name
  has no blank in it) on \<open>'' - ''\<close> gives the time stamp, then \<open>S\<close>, then the fields of
  \<open>M\<close>: the second field is \<open>S\<close> and the fields after it, joined by \<open>'' - ''\<close> again, are
  \<open>M\<close>.
\<close>

theorem log_line_round_trip:
  assumes "valid_datetime d" and "CHR '' '' \<notin> set S"
  shows "str_split '' - '' (format \<lparr>asctime = asctime_of d, levelname = S, message = M\<rparr>)
           = asctime_of d # S # str_split '' - '' M
       \<and> str_split '' - '' (format \<lparr>asctime = asctime_of d, levelname = S, message = M\<rparr>) ! 1 = S
       \<and> str_join '' - ''
           (drop 2 (str_split '' - '' (format \<lparr>asctime = asctime_of d, levelname = S, message = M\<rparr>)))
           = M"
proof -
  have a: "asctime_of d = millisecond_stamp d"
    using assms(1) by (rule asctime_of_millisecond_stamp)
  have fields: "str_split '' - '' (format \<lparr>asctime = asctime_of d, levelname = S, message = M\<rparr>)
           = asctime_of d # S # str_split '' - '' M"
    unfolding str_split_def format_def a
    using split_stamped_line[of d S M] split_level[OF assms(2), of M] by simp
  have joined: "str_join '' - '' (str_split '' - '' M) = M"
    unfolding str_split_def using str_join_split_from[of "'' - ''" "[]" M] by simp
  show ?thesis
    unfolding fields using joined by simp
qed

theorem log_line_round_trip_witness:
  "str_split '' - ''
      (format \<lparr>asctime = asctime_of (example_clock 0), levelname = ''INFO'',
               message = ''File a - b.txt uploaded to bkt''\<rparr>)
     = [''2024-03-09 14:05:07,123'', ''INFO'', ''File a'', ''b.txt uploaded to bkt'']
   \<and> str_join '' - ''
        (drop 2 (str_split '' - ''
           (format \<lparr>asctime = asctime_of (example_clock 0), levelname = ''INFO'',
                    message = ''File a - b.txt uploaded to bkt''\<rparr>)))
     = ''File a - b.txt uploaded to bkt''"
proof -
  have v: "valid_datetime (example_clock 0)"
    by (simp add: valid_datetime_def example_clock_def)
  have s: "CHR '' '' \<notin> set ''INFO''" by simp
  have m: "str_split '' - '' ''File a - b.txt uploaded to bkt'' = [''File a'', ''b.txt uploaded to bkt'']"
    by code_simp
  have t: "asctime_of (example_clock 0) = ''2024-03-09 14:05:07,123''"
    using asctime_of_millisecond_stamp[OF v] example_stamp[of 0] by simp
  show ?thesis
    using log_line_round_trip[OF v s, of "''File a - b.txt uploaded to bkt''"] m t by simp
qed

section \<open>Properties of the two threads\<close>

subsection \<open>Schedules\<close>

lemma execute_snoc: "execute (sched @ [ev]) s = step ev (execute sched s)"
  by (simp add: execute_def)

lemma execute_append: "execute (xs @ ys) s = execute ys (execute xs s)"
  by (simp add: execute_def)

lemma submitted_append: "submitted (xs @ ys) = submitted xs @ submitted ys"
  by (induction xs rule: submitted.induct) simp_all

lemma submitted_map_Put: "submitted (map Put xs) = xs"
  by (induction xs) simp_all

lemma consume_not_running: "t \<noteq> Running \<Longrightarrow> consume xs (t, d) = (t, d)"
  by (cases xs) simp_all

lemma consume_append: "consume (xs @ ys) td = consume ys (consume xs td)"
proof (induction xs arbitrary: td)
  case Nil
  show ?case by simp
next
  case (Cons x xs)
  obtain t d where td: "td = (t, d)" by (cases td) auto
  show ?case
  proof (cases "t = Running")
    case False
    then show ?thesis by (simp add: td consume_not_running)
  next
    case True
    then show ?thesis
      using Cons.IH by (simp add: td split: option.splits sum.splits)
  qed
qed

lemma consume_one:
  "consume [x] (Running, d) =
     (case x of
        None \<Rightarrow> (Finished, d)
      | Some r \<Rightarrow> (case write_log r d of Inr d' \<Rightarrow> (Running, d') | Inl err \<Rightarrow> (Died, d)))"
  by (simp split: option.splits sum.splits)

text \<open>
  Under every schedule the queue holds the submitted items the handler has not taken,
  and the handler and the files are where taking the others, in order, leaves them.
\<close>

lemma execute_invariant:
  "\<exists>n. n \<le> length (submitted sched)
     \<and> queue (execute sched (module_init d)) = drop n (submitted sched)
     \<and> (handler (execute sched (module_init d)), log_files (execute sched (module_init d)))
         = consume (take n (submitted sched)) (Running, d)"
proof (induction sched rule: rev_induct)
  case Nil
  show ?case by (simp add: execute_def module_init_def)
next
  case (snoc ev sched)
  let ?s = "execute sched (module_init d)"
  let ?subs = "submitted sched"
  from snoc obtain n where
    n: "n \<le> length ?subs" and
    q: "queue ?s = drop n ?subs" and
    c: "(handler ?s, log_files ?s) = consume (take n ?subs) (Running, d)"
    by blast
  show ?case
  proof (cases ev)
    case (Put x)
    have "queue (step ev ?s) = drop n (?subs @ [x])"
      using n q by (simp add: Put)
    moreover have "(handler (step ev ?s), log_files (step ev ?s))
                     = consume (take n (?subs @ [x])) (Running, d)"
      using n c by (simp add: Put)
    moreover have "n \<le> length (?subs @ [x])" using n by simp
    ultimately show ?thesis
      unfolding execute_snoc submitted_append Put by (intro exI[of _ n]) simp
  next
    case Handler
    have subs: "submitted (sched @ [ev]) = ?subs"
      by (simp add: submitted_append Handler)
    show ?thesis
    proof (cases "handler ?s = Running \<and> queue ?s \<noteq> []")
      case False
      then have "step ev ?s = ?s"
        by (auto simp: Handler run_iteration_def split: list.splits)
      then show ?thesis
        unfolding execute_snoc subs using n q c by (intro exI[of _ n]) simp
    next
      case True
      then obtain x rest where xq: "queue ?s = x # rest" by (cases "queue ?s") auto
      have lt: "n < length ?subs" using q xq n by (cases "n = length ?subs") auto
      have x: "?subs ! n = x" and rest: "rest = drop (Suc n) ?subs"
        using q xq lt by (simp_all add: Cons_nth_drop_Suc[symmetric])
      have tk: "take (Suc n) ?subs = take n ?subs @ [x]"
        using lt x by (simp add: take_Suc_conv_app_nth)
      have before: "consume (take n ?subs) (Running, d) = (Running, log_files ?s)"
        using c True by simp
      have after: "consume (take (Suc n) ?subs) (Running, d) = consume [x] (Running, log_files ?s)"
        unfolding tk consume_append before ..
      have st: "(handler (step ev ?s), log_files (step ev ?s)) = consume [x] (Running, log_files ?s)"
        using True xq
        by (simp add: Handler run_iteration_def split: option.splits sum.splits)
      have qu: "queue (step ev ?s) = drop (Suc n) ?subs"
        using True xq rest
        by (simp add: Handler run_iteration_def split: option.splits sum.splits)
      show ?thesis
        unfolding execute_snoc subs using lt qu st after
        by (intro exI[of _ "Suc n"]) simp
    qed
  qed
qed

lemma lines_for_Nil: "lines_for f [] = []"
  by (simp add: lines_for_def)

lemma write_log_appends:
  assumes "write_log r d = Inr d'"
  shows "d'\<lparr>content := \<lambda>f. content d' f @ lines_for f rs\<rparr>
           = d\<lparr>content := \<lambda>f. content d f @ lines_for f (r # rs)\<rparr>"
proof -
  have "content d' f @ lines_for f rs = content d f @ lines_for f (r # rs)" for f
    using assms
    by (cases f) (auto simp: write_log_def lines_for_def Let_def split: if_splits)
  moreover have "writable d' = writable d"
    using assms by (auto simp: write_log_def Let_def split: if_splits)
  ultimately show ?thesis
    using assms by (auto simp: write_log_def Let_def split: if_splits)
qed

lemma consume_shape:
  "\<exists>rs m. m \<le> length xs \<and> map Some rs = take m xs
     \<and> snd (consume xs (Running, d)) = d\<lparr>content := \<lambda>f. content d f @ lines_for f rs\<rparr>
     \<and> (fst (consume xs (Running, d)) = Running \<longrightarrow> m = length xs)
     \<and> (fst (consume xs (Running, d)) = Finished \<longrightarrow> m < length xs \<and> xs ! m = None)"
proof (induction xs arbitrary: d)
  case Nil
  show ?case by (intro exI[of _ "[]"] exI[of _ 0]) (simp add: lines_for_Nil)
next
  case (Cons x xs)
  show ?case
  proof (cases x)
    case None
    show ?thesis
      by (intro exI[of _ "[]"] exI[of _ 0]) (simp add: None consume_not_running lines_for_Nil)
  next
    case (Some r)
    show ?thesis
    proof (cases "write_log r d")
      case (Inl err)
      show ?thesis
        by (intro exI[of _ "[]"] exI[of _ 0])
           (simp add: Some Inl consume_not_running lines_for_Nil)
    next
      case (Inr d')
      from Cons.IH[of d'] obtain rs m where
        m: "m \<le> length xs" and
        p: "map Some rs = take m xs" and
        s: "snd (consume xs (Running, d')) = d'\<lparr>content := \<lambda>f. content d' f @ lines_for f rs\<rparr>" and
        r: "fst (consume xs (Running, d')) = Running \<longrightarrow> m = length xs" and
        f: "fst (consume xs (Running, d')) = Finished \<longrightarrow> m < length xs \<and> xs ! m = None"
        by blast
      have step: "consume (x # xs) (Running, d) = consume xs (Running, d')"
        by (simp add: Some Inr)
      have s': "snd (consume xs (Running, d')) = d\<lparr>content := \<lambda>f. content d f @ lines_for f (r # rs)\<rparr>"
        using s write_log_appends[OF Inr, of rs] by simp
      have p': "map Some (r # rs) = take (Suc m) (x # xs)"
        using p by (simp add: Some)
      show ?thesis
        unfolding step using m p' s' r f
        by (intro exI[of _ "r # rs"] exI[of _ "Suc m"]) simp
    qed
  qed
qed

lemma run_queue_shape:
  "\<exists>rs. log_queue (upload_directory_to_s3 e path root b w) = log_queue w @ map Some rs @ [None]"
proof -
  from upload_walk_effect[of e b "os_walk path root" w] obtain rs where
    "log_queue (upload_walk e b (os_walk path root) w) = log_queue w @ map Some rs"
    by blast
  then have "log_queue (upload_directory_to_s3 e path root b w) = log_queue w @ map Some rs @ [None]"
    by (simp add: upload_directory_to_s3_def Let_def)
  then show ?thesis by blast
qed

lemma reached_state:
  "\<exists>rs m n. m \<le> n \<and> n \<le> length (submitted sched)
     \<and> queue (execute sched (module_init d)) = drop n (submitted sched)
     \<and> map Some rs = take m (submitted sched)
     \<and> log_files (execute sched (module_init d))
         = d\<lparr>content := \<lambda>f. content d f @ lines_for f rs\<rparr>
     \<and> (handler (execute sched (module_init d)) = Running \<longrightarrow> m = n)
     \<and> (handler (execute sched (module_init d)) = Finished
          \<longrightarrow> m < n \<and> submitted sched ! m = None)"
proof -
  let ?s = "execute sched (module_init d)"
  let ?subs = "submitted sched"
  from execute_invariant[of sched d] obtain n where
    n: "n \<le> length ?subs" and
    q: "queue ?s = drop n ?subs" and
    c: "(handler ?s, log_files ?s) = consume (take n ?subs) (Running, d)"
    by blast
  from consume_shape[of "take n ?subs" d] obtain rs m where
    m: "m \<le> length (take n ?subs)" and
    p: "map Some rs = take m (take n ?subs)" and
    s: "snd (consume (take n ?subs) (Running, d)) = d\<lparr>content := \<lambda>f. content d f @ lines_for f rs\<rparr>" and
    r: "fst (consume (take n ?subs) (Running, d)) = Running \<longrightarrow> m = length (take n ?subs)" and
    f: "fst (consume (take n ?subs) (Running, d)) = Finished
          \<longrightarrow> m < length (take n ?subs) \<and> take n ?subs ! m = None"
    by blast
  have h: "fst (consume (take n ?subs) (Running, d)) = handler ?s"
    and l: "snd (consume (take n ?subs) (Running, d)) = log_files ?s"
    using c[symmetric] by simp_all
  have mn: "m \<le> n" using m n by simp
  have p': "map Some rs = take m ?subs" using p mn by (simp add: min_def)
  have s': "log_files ?s = d\<lparr>content := \<lambda>f. content d f @ lines_for f rs\<rparr>"
    using s l by simp
  have r': "handler ?s = Running \<longrightarrow> m = n" using r h n by simp
  have f': "handler ?s = Finished \<longrightarrow> m < n \<and> ?subs ! m = None"
    using f h n by auto
  show ?thesis
    using mn n q p' s' r' f' by blast
qed

lemma records_then_signal:
  assumes "map Some rs' = take m (map Some rs @ None # later)"
  shows "m \<le> length rs" and "rs' = take m rs"
proof -
  show le: "m \<le> length rs"
  proof (rule ccontr)
    assume "\<not> m \<le> length rs"
    then have "None \<in> set (take m (map Some rs @ None # later))"
      by (auto simp: take_Cons')
    then have "None \<in> set (map Some rs')" using assms by simp
    then show False by auto
  qed
  then have "map Some rs' = map Some (take m rs)"
    using assms by (simp add: take_map)
  then show "rs' = take m rs" by (simp add: inj_map_eq_map)
qed

lemma execute_ended:
  "handler s \<noteq> Running \<Longrightarrow> execute sched s = s\<lparr>queue := queue s @ submitted sched\<rparr>"
proof (induction sched arbitrary: s)
  case Nil
  show ?case by (simp add: execute_def)
next
  case (Cons ev sched)
  have ex: "execute (ev # sched) s = execute sched (step ev s)"
    by (simp add: execute_def)
  show ?case
  proof (cases ev)
    case (Put x)
    have "handler (step ev s) \<noteq> Running" using Cons.prems by (simp add: Put)
    from Cons.IH[OF this] show ?thesis
      unfolding ex by (simp add: Put)
  next
    case Handler
    have "step ev s = s" using Cons.prems by (simp add: Handler run_iteration_def)
    then show ?thesis
      unfolding ex using Cons.IH[OF Cons.prems] by (simp add: Handler)
  qed
qed

lemma example_run_queue:
  "log_queue (upload_directory_to_s3 \<lparr>attempt = (\<lambda>p b k. Success), now = example_clock, print_raises = (\<lambda>l. None)\<rparr>
       ''r'' (Some (Dir [''a.txt''] [])) ''bkt'' fresh_world)
     = [Some \<lparr>asctime = ''2024-03-09 14:05:07,123'', levelname = ''INFO'',
              message = ''File a.txt uploaded to bkt''\<rparr>, None]"
  by (simp add: upload_directory_to_s3_def upload_one_def path_join_def log_async_def print_def
      fresh_world_def example_asctime)

subsection \<open>Order of the written lines\<close>

text \<open>
  Claim C5. Whatever the interleaving of the \<^verbatim>\<open>put\<close>s with the iterations of the
  handler, each log file holds what it held at the start followed by the lines of its
  records out of \<open>rs\<close>, where \<open>rs\<close> is the first so many of the submitted records: the
  lines stand in the order of submission. When the handler is still running and has
  emptied the queue, \<open>rs\<close> is every record submitted.
\<close>

theorem files_hold_records_in_submission_order:
  "\<exists>rs m. map Some rs = take m (submitted sched)
     \<and> (\<forall>f. content (log_files (execute sched (module_init d))) f
              = content d f @ lines_for f rs)
     \<and> (handler (execute sched (module_init d)) = Running
          \<and> queue (execute sched (module_init d)) = []
        \<longrightarrow> map Some rs = submitted sched)"
proof -
  from reached_state[of sched d] obtain rs m n where
    mn: "m \<le> n" and n: "n \<le> length (submitted sched)" and
    q: "queue (execute sched (module_init d)) = drop n (submitted sched)" and
    p: "map Some rs = take m (submitted sched)" and
    s: "log_files (execute sched (module_init d))
         = d\<lparr>content := \<lambda>f. content d f @ lines_for f rs\<rparr>" and
    r: "handler (execute sched (module_init d)) = Running \<longrightarrow> m = n"
    by blast
  have c: "\<forall>f. content (log_files (execute sched (module_init d))) f
              = content d f @ lines_for f rs"
    unfolding s by simp
  have a: "handler (execute sched (module_init d)) = Running
          \<and> queue (execute sched (module_init d)) = []
        \<longrightarrow> map Some rs = submitted sched"
    using q r n p by auto
  show ?thesis using p c a by blast
qed

theorem files_hold_records_in_submission_order_witness:
  "\<forall>f. content (log_files (execute
       [Put (Some \<lparr>asctime = ''t1'', levelname = ''INFO'', message = ''one''\<rparr>), Handler,
        Put (Some \<lparr>asctime = ''t2'', levelname = ''ERROR'', message = ''two''\<rparr>),
        Put (Some \<lparr>asctime = ''t3'', levelname = ''INFO'', message = ''three''\<rparr>),
        Handler, Handler]
       (module_init example_disk))) f
     = lines_for f
        [\<lparr>asctime = ''t1'', levelname = ''INFO'', message = ''one''\<rparr>,
         \<lparr>asctime = ''t2'', levelname = ''ERROR'', message = ''two''\<rparr>,
         \<lparr>asctime = ''t3'', levelname = ''INFO'', message = ''three''\<rparr>]"
proof -
  let ?r1 = "\<lparr>asctime = ''t1'', levelname = ''INFO'', message = ''one''\<rparr>"
  let ?r2 = "\<lparr>asctime = ''t2'', levelname = ''ERROR'', message = ''two''\<rparr>"
  let ?r3 = "\<lparr>asctime = ''t3'', levelname = ''INFO'', message = ''three''\<rparr>"
  let ?sched = "[Put (Some ?r1), Handler, Put (Some ?r2), Put (Some ?r3), Handler, Handler]"
  let ?s = "execute ?sched (module_init example_disk)"
  have idle: "handler ?s = Running \<and> queue ?s = []"
    by (simp add: execute_def run_iteration_def write_log_def module_init_def example_disk_def)
  from files_hold_records_in_submission_order[of ?sched example_disk] obtain rs m where
    c: "\<forall>f. content (log_files ?s) f = content example_disk f @ lines_for f rs" and
    a: "handler ?s = Running \<and> queue ?s = [] \<longrightarrow> map Some rs = submitted ?sched"
    by blast
  have "map Some rs = [Some ?r1, Some ?r2, Some ?r3]"
    using a idle by simp
  then have "rs = [?r1, ?r2, ?r3]"
    by (auto simp: map_eq_Cons_conv)
  then show ?thesis using c by (simp add: example_disk_def)
qed

subsection \<open>The end of a run\<close>

text \<open>
  Claim C3, as the code has it. The run ends with \<^verbatim>\<open>log_queue.put(None)\<close>, which does
  not wait for the handler, and nothing joins the thread. Once the handler has taken the
  signal of the run and left its loop, every record the run queued before the signal is
  in its log file, in order, and the queue is empty.
\<close>

theorem finished_handler_has_written_every_record:
  assumes "log_queue w = []"
    and "submitted sched = log_queue (upload_directory_to_s3 e path root b w)"
    and "handler (execute sched (module_init d)) = Finished"
  shows "\<exists>rs. log_queue (upload_directory_to_s3 e path root b w) = map Some rs @ [None]
           \<and> (\<forall>f. content (log_files (execute sched (module_init d))) f
                    = content d f @ lines_for f rs)
           \<and> queue (execute sched (module_init d)) = []"
proof -
  from run_queue_shape[of e path root b w] assms(1) obtain rs0 where
    shape: "log_queue (upload_directory_to_s3 e path root b w) = map Some rs0 @ [None]"
    by auto
  have subs: "submitted sched = map Some rs0 @ None # []"
    using assms(2) shape by simp
  from reached_state[of sched d] assms(3) obtain rs m n where
    mn: "m < n" and n: "n \<le> length (submitted sched)" and
    q: "queue (execute sched (module_init d)) = drop n (submitted sched)" and
    p: "map Some rs = take m (submitted sched)" and
    s: "log_files (execute sched (module_init d))
         = d\<lparr>content := \<lambda>f. content d f @ lines_for f rs\<rparr>" and
    sig: "submitted sched ! m = None"
    by blast
  have le: "m \<le> length rs0" and rs: "rs = take m rs0"
    using records_then_signal[of rs m rs0 "[]"] p subs by simp_all
  have "m = length rs0"
  proof (rule ccontr)
    assume "m \<noteq> length rs0"
    then have "m < length rs0" using le by simp
    then have "submitted sched ! m = Some (rs0 ! m)"
      by (simp add: subs nth_append)
    then show False using sig by simp
  qed
  then have all: "rs = rs0" using rs by simp
  have "n = length (submitted sched)"
    using mn n \<open>m = length rs0\<close> by (simp add: subs)
  then have empty: "queue (execute sched (module_init d)) = []"
    using q by simp
  have c: "\<forall>f. content (log_files (execute sched (module_init d))) f
              = content d f @ lines_for f rs0"
    unfolding s all by simp
  show ?thesis using shape c empty by blast
qed

theorem finished_handler_has_written_every_record_witness:
  "content (log_files (execute
       [Put (Some \<lparr>asctime = ''2024-03-09 14:05:07,123'', levelname = ''INFO'',
                    message = ''File a.txt uploaded to bkt''\<rparr>),
        Put None, Handler, Handler]
       (module_init example_disk))) INFO_LOG_FILE
     = ''2024-03-09 14:05:07,123 - INFO - File a.txt uploaded to bkt'' @ newline"
proof -
  let ?e = "\<lparr>attempt = (\<lambda>p b k. Success), now = example_clock, print_raises = (\<lambda>l. None)\<rparr>"
  let ?r = "\<lparr>asctime = ''2024-03-09 14:05:07,123'', levelname = ''INFO'',
              message = ''File a.txt uploaded to bkt''\<rparr>"
  let ?sched = "[Put (Some ?r), Put None, Handler, Handler]"
  let ?s = "execute ?sched (module_init example_disk)"
  have h1: "log_queue fresh_world = []" by (simp add: fresh_world_def)
  have h2: "submitted ?sched
              = log_queue (upload_directory_to_s3 ?e ''r'' (Some (Dir [''a.txt''] [])) ''bkt'' fresh_world)"
    unfolding example_run_queue by simp
  have h3: "handler ?s = Finished"
    by (simp add: execute_def run_iteration_def write_log_def module_init_def example_disk_def)
  from finished_handler_has_written_every_record[OF h1 h2 h3] obtain rs where
    shape: "log_queue (upload_directory_to_s3 ?e ''r'' (Some (Dir [''a.txt''] [])) ''bkt'' fresh_world)
              = map Some rs @ [None]" and
    c: "\<forall>f. content (log_files ?s) f = content example_disk f @ lines_for f rs"
    by blast
  have "map Some rs @ [None] = [Some ?r, None]"
    using shape unfolding example_run_queue by simp
  then have "rs = [?r]"
    by (auto simp: append_eq_Cons_conv map_eq_Cons_conv)
  then show ?thesis
    using c by (simp add: example_disk_def lines_for_def format_def)
qed

text \<open>
  The claim as written fails under the schedule in which the handler has not run when
  the calling thread has made all its \<^verbatim>\<open>put\<close>s, the signal included: the run has
  returned, the record is still in the queue and the files are as before.
\<close>

theorem run_returns_before_records_are_written:
  "execute
     (map Put (log_queue (upload_directory_to_s3
        \<lparr>attempt = (\<lambda>p b k. Success), now = example_clock, print_raises = (\<lambda>l. None)\<rparr>
        ''r'' (Some (Dir [''a.txt''] [])) ''bkt'' fresh_world)))
     (module_init example_disk)
   = \<lparr>queue = [Some \<lparr>asctime = ''2024-03-09 14:05:07,123'', levelname = ''INFO'',
                     message = ''File a.txt uploaded to bkt''\<rparr>, None],
      handler = Running, log_files = example_disk\<rparr>"
  unfolding example_run_queue
  by (simp add: execute_def module_init_def)

subsection \<open>A write that fails\<close>

text \<open>
  Claim C4, as the code has it. \<^verbatim>\<open>run\<close> has no handler for an exception of
  \<^verbatim>\<open>write_log\<close>. When the file of a record cannot be written, the record is taken off
  the queue and not tried again, and the thread ends there: under every later schedule
  the files stay as they are, while every \<^verbatim>\<open>put\<close> of the calling thread still succeeds
  and its items remain in the queue.
\<close>

theorem failed_write_ends_handler:
  assumes "handler s = Running" and "queue s = Some r # q"
    and "\<not> writable (log_files s)
            (if levelname r = ''ERROR'' then ERROR_LOG_FILE else INFO_LOG_FILE)"
  shows "run_iteration s = s\<lparr>queue := q, handler := Died\<rparr>
       \<and> execute sched (run_iteration s) = s\<lparr>queue := q @ submitted sched, handler := Died\<rparr>"
proof -
  have one: "run_iteration s = s\<lparr>queue := q, handler := Died\<rparr>"
    using assms by (simp add: run_iteration_def write_log_def Let_def)
  have "handler (s\<lparr>queue := q, handler := Died\<rparr>) \<noteq> Running" by simp
  from execute_ended[OF this, of sched]
  have "execute sched (s\<lparr>queue := q, handler := Died\<rparr>)
          = s\<lparr>queue := q @ submitted sched, handler := Died\<rparr>"
    by simp
  then show ?thesis using one by simp
qed

theorem failed_write_ends_handler_witness:
  "execute [Handler, Put None, Handler]
     (run_iteration
        \<lparr>queue = [Some \<lparr>asctime = ''t1'', levelname = ''ERROR'', message = ''one''\<rparr>,
                  Some \<lparr>asctime = ''t2'', levelname = ''INFO'', message = ''two''\<rparr>],
          handler = Running,
          log_files = \<lparr>content = (\<lambda>f. []), writable = (\<lambda>f. f = INFO_LOG_FILE)\<rparr>\<rparr>)
   = \<lparr>queue = [Some \<lparr>asctime = ''t2'', levelname = ''INFO'', message = ''two''\<rparr>, None],
      handler = Died,
      log_files = \<lparr>content = (\<lambda>f. []), writable = (\<lambda>f. f = INFO_LOG_FILE)\<rparr>\<rparr>"
proof -
  let ?r1 = "\<lparr>asctime = ''t1'', levelname = ''ERROR'', message = ''one''\<rparr>"
  let ?r2 = "\<lparr>asctime = ''t2'', levelname = ''INFO'', message = ''two''\<rparr>"
  let ?d = "\<lparr>content = (\<lambda>f. []), writable = (\<lambda>f. f = INFO_LOG_FILE)\<rparr>"
  let ?s = "\<lparr>queue = [Some ?r1, Some ?r2], handler = Running, log_files = ?d\<rparr>"
  have h1: "handler ?s = Running" by simp
  have h2: "queue ?s = Some ?r1 # [Some ?r2]" by simp
  have h3: "\<not> writable (log_files ?s)
              (if levelname ?r1 = ''ERROR'' then ERROR_LOG_FILE else INFO_LOG_FILE)"
    by simp
  have "execute [Handler, Put None, Handler] (run_iteration ?s)
          = ?s\<lparr>queue := [Some ?r2] @ submitted [Handler, Put None, Handler], handler := Died\<rparr>"
    using failed_write_ends_handler[OF h1 h2 h3, of "[Handler, Put None, Handler]"]
    by (rule conjunct2)
  then show ?thesis by simp
qed

text \<open>
  The claim as written fails when the error file cannot be written: the handler ends at
  the ERROR record and the INFO record queued behind it is never written, though its
  file can be written.
\<close>

theorem failed_write_stops_later_records:
  "execute
     [Put (Some \<lparr>asctime = ''t1'', levelname = ''ERROR'', message = ''one''\<rparr>),
      Put (Some \<lparr>asctime = ''t2'', levelname = ''INFO'', message = ''two''\<rparr>),
      Handler, Handler, Handler]
     (module_init \<lparr>content = (\<lambda>f. []), writable = (\<lambda>f. f = INFO_LOG_FILE)\<rparr>)
   = \<lparr>queue = [Some \<lparr>asctime = ''t2'', levelname = ''INFO'', message = ''two''\<rparr>],
      handler = Died,
      log_files = \<lparr>content = (\<lambda>f. []), writable = (\<lambda>f. f = INFO_LOG_FILE)\<rparr>\<rparr>"
  by (simp add: execute_def run_iteration_def write_log_def module_init_def)

subsection \<open>A second run in the same process\<close>

text \<open>
  Claim C10, as the code has it. Queue and handler are created once, and every run ends
  by putting \<open>None\<close>. After a first run the handler stops at that signal at the latest:
  while it is running the signal is still in the queue. Under every schedule the files
  gain lines of the first run's records only, so no record a second run submits is ever
  written.
\<close>

theorem records_after_first_signal_never_written:
  assumes "log_queue w = []"
    and "submitted sched
           = log_queue (upload_directory_to_s3 e2 path2 root2 b2
                          (upload_directory_to_s3 e1 path1 root1 b1 w))"
  shows "\<exists>rs1 m. log_queue (upload_directory_to_s3 e1 path1 root1 b1 w) = map Some rs1 @ [None]
           \<and> m \<le> length rs1
           \<and> (\<forall>f. content (log_files (execute sched (module_init d))) f
                    = content d f @ lines_for f (take m rs1))
           \<and> (handler (execute sched (module_init d)) = Running
                \<longrightarrow> None \<in> set (queue (execute sched (module_init d))))"
proof -
  let ?w1 = "upload_directory_to_s3 e1 path1 root1 b1 w"
  from run_queue_shape[of e1 path1 root1 b1 w] assms(1) obtain rs1 where
    shape1: "log_queue ?w1 = map Some rs1 @ [None]"
    by auto
  from run_queue_shape[of e2 path2 root2 b2 ?w1] obtain rs2 where
    shape2: "log_queue (upload_directory_to_s3 e2 path2 root2 b2 ?w1)
               = log_queue ?w1 @ map Some rs2 @ [None]"
    by blast
  have subs: "submitted sched = map Some rs1 @ None # (map Some rs2 @ [None])"
    using assms(2) shape1 shape2 by simp
  from reached_state[of sched d] obtain rs m n where
    mn: "m \<le> n" and n: "n \<le> length (submitted sched)" and
    q: "queue (execute sched (module_init d)) = drop n (submitted sched)" and
    p: "map Some rs = take m (submitted sched)" and
    s: "log_files (execute sched (module_init d))
         = d\<lparr>content := \<lambda>f. content d f @ lines_for f rs\<rparr>" and
    r: "handler (execute sched (module_init d)) = Running \<longrightarrow> m = n"
    by blast
  have le: "m \<le> length rs1" and rs: "rs = take m rs1"
    using records_then_signal[of rs m rs1 "map Some rs2 @ [None]"] p subs by simp_all
  have c: "\<forall>f. content (log_files (execute sched (module_init d))) f
              = content d f @ lines_for f (take m rs1)"
    unfolding s rs by simp
  have still: "handler (execute sched (module_init d)) = Running
                \<longrightarrow> None \<in> set (queue (execute sched (module_init d)))"
  proof
    assume "handler (execute sched (module_init d)) = Running"
    then have "n \<le> length rs1" using r le by simp
    then show "None \<in> set (queue (execute sched (module_init d)))"
      unfolding q subs by simp
  qed
  show ?thesis using shape1 le c still by blast
qed

theorem records_after_first_signal_never_written_witness:
  "\<exists>m \<le> 1. \<forall>f. content (log_files (execute
       [Put (Some \<lparr>asctime = ''2024-03-09 14:05:07,123'', levelname = ''INFO'',
                    message = ''File a.txt uploaded to bkt''\<rparr>),
        Put None, Handler,
        Put (Some \<lparr>asctime = ''2024-03-09 14:05:07,123'', levelname = ''INFO'',
                    message = ''File a.txt uploaded to bkt''\<rparr>),
        Put None, Handler, Handler, Handler]
       (module_init example_disk))) f
     = lines_for f
         (take m [\<lparr>asctime = ''2024-03-09 14:05:07,123'', levelname = ''INFO'',
                   message = ''File a.txt uploaded to bkt''\<rparr>])"
proof -
  let ?e = "\<lparr>attempt = (\<lambda>p b k. Success), now = example_clock, print_raises = (\<lambda>l. None)\<rparr>"
  let ?r = "\<lparr>asctime = ''2024-03-09 14:05:07,123'', levelname = ''INFO'',
              message = ''File a.txt uploaded to bkt''\<rparr>"
  let ?sched = "[Put (Some ?r), Put None, Handler, Put (Some ?r), Put None, Handler, Handler, Handler]"
  let ?s = "execute ?sched (module_init example_disk)"
  let ?w1 = "upload_directory_to_s3 ?e ''r'' (Some (Dir [''a.txt''] [])) ''bkt'' fresh_world"
  have h1: "log_queue fresh_world = []" by (simp add: fresh_world_def)
  have q2: "log_queue (upload_directory_to_s3 ?e ''r'' (Some (Dir [''a.txt''] [])) ''bkt'' ?w1)
              = [Some ?r, None, Some ?r, None]"
    by (simp add: upload_directory_to_s3_def upload_one_def path_join_def log_async_def print_def
        fresh_world_def example_asctime)
  have h2: "submitted ?sched
              = log_queue (upload_directory_to_s3 ?e ''r'' (Some (Dir [''a.txt''] [])) ''bkt'' ?w1)"
    unfolding q2 by simp
  from records_after_first_signal_never_written[OF h1 h2, of example_disk] obtain rs1 m where
    shape: "log_queue ?w1 = map Some rs1 @ [None]" and
    m: "m \<le> length rs1" and
    c: "\<forall>f. content (log_files ?s) f = content example_disk f @ lines_for f (take m rs1)"
    by blast
  have "map Some rs1 @ [None] = [Some ?r, None]"
    using shape unfolding example_run_queue by simp
  then have rs1: "rs1 = [?r]"
    by (auto simp: append_eq_Cons_conv map_eq_Cons_conv)
  have "m \<le> 1" using m rs1 by simp
  moreover have "\<forall>f. content (log_files ?s) f = lines_for f (take m [?r])"
    using c rs1 by (simp add: example_disk_def)
  ultimately show ?thesis by blast
qed

text \<open>
  The claim as written says that the handler has ended once a run has returned. Under
  the schedule in which the handler has not run by then, the run over a missing root has
  returned and the handler is running, with the signal in the queue.
\<close>

theorem handler_still_running_when_call_returns:
  "execute
     (map Put (log_queue (upload_directory_to_s3
        \<lparr>attempt = (\<lambda>p b k. Success), now = example_clock, print_raises = (\<lambda>l. None)\<rparr>
        ''./test_files'' None ''bkt'' fresh_world)))
     (module_init example_disk)
   = \<lparr>queue = [None], handler = Running, log_files = example_disk\<rparr>"
  by (simp add: upload_directory_to_s3_def fresh_world_def execute_def module_init_def)

end
